theory Spec2Isabelle
  imports Main
begin

section \<open>auto\_print\_pdfs.py: a shallow embedding\<close>

text \<open>
  The script watches a folder, sniffs every regular file for the PDF magic bytes and hands
  new or changed files to the external command \<^verbatim>\<open>lp\<close>.  All of its functions live in
  \<^verbatim>\<open>src/auto_print_pdfs.py\<close>; the line numbers below refer to that file.

  Conventions of the embedding.
  \<^item> A Python \<^verbatim>\<open>str\<close> is a list of code points.  The code points U+0000 to U+00FF are
    represented by \<^typ>\<open>char\<close>; text outside that range is not representable.
  \<^item> A Python exception is a value of \<open>py_exception\<close>; a function that can raise returns
    \<open>py_exception + 'a\<close> with \<open>Inl\<close> for the raise.  Only subclasses of
    \<^verbatim>\<open>Exception\<close> occur: the \<^verbatim>\<open>SystemExit\<close> raised by the SIGINT handler of
    \<^verbatim>\<open>watch_folder\<close> arrives asynchronously and is outside the embedding.
  \<^item> Everything the script does to the outside world is an \<open>event\<close>; every function
    returns the list of events it caused, in order.  A call that raises before it has an
    effect leaves no event.
  \<^item> What the outside world answers is read from an environment record; the watch loop
    gets one environment per cycle.
  \<^item> \<^verbatim>\<open>os.path.getmtime\<close> returns a float.  The script only compares such values with
    \<^verbatim>\<open><\<close>, so a modification time is a value of any linear order \<open>'t\<close> (a stat
    result is never NaN).
\<close>

subsection \<open>Exceptions and events\<close>

datatype exc_class = OSError | ValueError | EOFError | CalledProcessError int

text \<open>An exception: its class and the text \<^verbatim>\<open>str(e)\<close> gives.\<close>

datatype py_exception = Exc (exc_class: exc_class) (exc_str: string)

datatype event =
    EvLog string
  | EvStdout string
  | EvPrompt string
  | EvListdir string
  | EvIsfile string
  | EvOpen string
  | EvRead string nat
  | EvGetmtime string
  | EvRun "string list"
  | EvSleep nat

text \<open>
  Lines 13 to 20.  \<^verbatim>\<open>log\<close> prints the message behind a time stamp taken from the wall
  clock; the event keeps the message and leaves the time stamp out.
\<close>

definition log :: "string \<Rightarrow> event list" where
  "log msg = [EvLog msg]"

definition warn :: "string \<Rightarrow> event list" where
  "warn msg = log (''WARNING: '' @ msg)"

definition err :: "string \<Rightarrow> event list" where
  "err msg = log (''ERROR: '' @ msg)"

text \<open>
  The three functions above give the line that a call writes.  The call itself goes through
  \<^verbatim>\<open>print\<close>, which raises when stdout does not take the line (it is closed, or it
  cannot encode the text).  What stdout does with a line is a function of the line:
  \<open>None\<close> when it is written, the exception otherwise.  \<open>log_out\<close>, \<open>warn_out\<close>
  and \<open>err_out\<close> are the calls.
\<close>

definition log_out :: "(string \<Rightarrow> py_exception option) \<Rightarrow> string
    \<Rightarrow> (py_exception + unit) \<times> event list" where
  "log_out out msg = (case out msg of None \<Rightarrow> (Inr (), log msg) | Some e \<Rightarrow> (Inl e, []))"

definition warn_out :: "(string \<Rightarrow> py_exception option) \<Rightarrow> string
    \<Rightarrow> (py_exception + unit) \<times> event list" where
  "warn_out out msg = log_out out (''WARNING: '' @ msg)"

definition err_out :: "(string \<Rightarrow> py_exception option) \<Rightarrow> string
    \<Rightarrow> (py_exception + unit) \<times> event list" where
  "err_out out msg = log_out out (''ERROR: '' @ msg)"

subsection \<open>The string methods the script calls\<close>

text \<open>\<^verbatim>\<open>str.lower\<close> on U+0000..U+00FF: A-Z, and the Latin-1 capitals but the
  multiplication sign U+00D7, move up by 32.\<close>

definition py_lower_char :: "char \<Rightarrow> char" where
  "py_lower_char c =
     (let n = (of_char c :: nat) in
      if (65 \<le> n \<and> n \<le> 90) \<or> (192 \<le> n \<and> n \<le> 222 \<and> n \<noteq> 215)
      then char_of (n + 32) else c)"

definition py_lower :: "string \<Rightarrow> string" where
  "py_lower s = map py_lower_char s"

definition endswith :: "string \<Rightarrow> string \<Rightarrow> bool" where
  "endswith s suf = (length suf \<le> length s \<and> drop (length s - length suf) s = suf)"

definition startswith :: "string \<Rightarrow> string \<Rightarrow> bool" where
  "startswith s pre = (take (length pre) s = pre)"

text \<open>\<^verbatim>\<open>str.isspace\<close> on U+0000..U+00FF: TAB to CR, FS to US, space, NEL and NBSP.\<close>

definition py_isspace :: "char \<Rightarrow> bool" where
  "py_isspace c =
     (let n = (of_char c :: nat) in
      (9 \<le> n \<and> n \<le> 13) \<or> (28 \<le> n \<and> n \<le> 32) \<or> n = 133 \<or> n = 160)"

definition py_strip :: "string \<Rightarrow> string" where
  "py_strip s = rev (dropWhile py_isspace (rev (dropWhile py_isspace s)))"

definition is_ascii_digit :: "char \<Rightarrow> bool" where
  "is_ascii_digit c = (let n = (of_char c :: nat) in 48 \<le> n \<and> n \<le> 57)"

text \<open>\<^verbatim>\<open>str.isdigit\<close> on U+0000..U+00FF: besides 0-9 it holds of the superscript digits
  U+00B2, U+00B3 and U+00B9.  The empty string is not a digit string.\<close>

definition py_isdigit_char :: "char \<Rightarrow> bool" where
  "py_isdigit_char c =
     (let n = (of_char c :: nat) in is_ascii_digit c \<or> n = 178 \<or> n = 179 \<or> n = 185)"

definition py_isdigit :: "string \<Rightarrow> bool" where
  "py_isdigit s = (s \<noteq> [] \<and> list_all py_isdigit_char s)"

definition digit_val :: "char \<Rightarrow> int" where
  "digit_val c = int (of_char c) - 48"

text \<open>\<^verbatim>\<open>str(n)\<close> for an integer.\<close>

fun str_nat :: "nat \<Rightarrow> string" where
  "str_nat n =
     (if n < 10 then [char_of (48 + n)]
      else str_nat (n div 10) @ [char_of (48 + n mod 10)])"

definition py_str_int :: "int \<Rightarrow> string" where
  "py_str_int i = (if i < 0 then ''-'' @ str_nat (nat (- i)) else str_nat (nat i))"

text \<open>
  \<^verbatim>\<open>int(s)\<close> for the strings the script passes to it, which all satisfy
  \<^verbatim>\<open>s.isdigit()\<close>, so that \<^verbatim>\<open>repr(s)\<close> is \<open>s\<close> between single quotes.  The
  conversion first counts the decimal digits at the front and raises \<^verbatim>\<open>ValueError\<close>
  when there are more than 4300 (the default limit of CPython 3.11 and later); then it
  gives the decimal value when every character is one of 0-9, and raises
  \<^verbatim>\<open>ValueError\<close> when a superscript digit occurs.  (Signs, blanks and underscores
  never reach \<^verbatim>\<open>int\<close> here.)
\<close>

definition max_str_digits :: nat where
  "max_str_digits = 4300"

definition py_int :: "string \<Rightarrow> py_exception + int" where
  "py_int s =
     (let digits = length (takeWhile is_ascii_digit s) in
      if max_str_digits < digits
      then Inl (Exc ValueError
             (''Exceeds the limit ('' @ str_nat max_str_digits
              @ '' digits) for integer string conversion: value has '' @ str_nat digits
              @ '' digits; use sys.set_int_max_str_digits() to increase the limit''))
      else if s \<noteq> [] \<and> list_all is_ascii_digit s
      then Inr (foldl (\<lambda>acc c. 10 * acc + digit_val c) 0 s)
      else Inl (Exc ValueError
             (''invalid literal for int() with base 10: '' @ [CHR 0x27] @ s @ [CHR 0x27])))"

text \<open>\<^verbatim>\<open>" ".join(xs)\<close>.\<close>

fun join_space :: "string list \<Rightarrow> string" where
  "join_space [] = []"
| "join_space [x] = x"
| "join_space (x # y # ys) = x @ '' '' @ join_space (y # ys)"

text \<open>
  \<^verbatim>\<open>shlex.quote\<close>: the empty string becomes two quotes, a string of safe characters
  (ASCII letters, digits and \<^verbatim>\<open>_@%+=:,./-\<close>) is returned as it is, anything else is
  wrapped in single quotes with each single quote inside replaced.
\<close>

definition shlex_safe :: "char \<Rightarrow> bool" where
  "shlex_safe c =
     (let n = (of_char c :: nat) in
      (48 \<le> n \<and> n \<le> 57) \<or> (65 \<le> n \<and> n \<le> 90) \<or> (97 \<le> n \<and> n \<le> 122)
      \<or> c \<in> set ''_@%+=:,./-'')"

definition shlex_quote :: "string \<Rightarrow> string" where
  "shlex_quote s =
     (if s = [] then [CHR 0x27, CHR 0x27]
      else if list_all shlex_safe s then s
      else [CHR 0x27]
           @ concat (map (\<lambda>c. if c = CHR 0x27
                                then [CHR 0x27, CHR 0x22, CHR 0x27, CHR 0x22, CHR 0x27]
                                else [c]) s)
           @ [CHR 0x27])"

text \<open>\<^verbatim>\<open>os.path.join(a, b)\<close> of posixpath, for two components.\<close>

definition os_path_join :: "string \<Rightarrow> string \<Rightarrow> string" where
  "os_path_join a b =
     (if startswith b ''/'' then b
      else if a = [] \<or> endswith a ''/'' then a @ b
      else a @ ''/'' @ b)"

subsection \<open>The PDF sniffer (lines 90 to 97)\<close>

text \<open>
  What opening a path for reading and reading from it does: \<^verbatim>\<open>open\<close> raises, or the
  read raises, or the file has some bytes.
\<close>

datatype file_node = OpenRaises py_exception | ReadRaises py_exception | Content string

definition PDF_MAGIC :: string where
  "PDF_MAGIC = ''%PDF-''"

text \<open>Lines 94 and 95: \<^verbatim>\<open>with open(path, "rb") as f: f.read(5)\<close>.\<close>

definition open_read :: "(string \<Rightarrow> file_node) \<Rightarrow> string \<Rightarrow> nat
    \<Rightarrow> (py_exception + string) \<times> event list" where
  "open_read fs path n =
     (case fs path of
        OpenRaises e \<Rightarrow> (Inl e, [EvOpen path])
      | ReadRaises e \<Rightarrow> (Inl e, [EvOpen path, EvRead path n])
      | Content bs \<Rightarrow> (Inr (take n bs), [EvOpen path, EvRead path n]))"

definition is_pdf :: "(string \<Rightarrow> file_node) \<Rightarrow> string \<Rightarrow> (py_exception + bool) \<times> event list" where
  "is_pdf fs path =
     (if \<not> endswith (py_lower path) ''.pdf'' then (Inr False, [])
      else
        (case open_read fs path 5 of
           (Inr bs, evs) \<Rightarrow> (Inr (bs = PDF_MAGIC), evs)
         | (Inl e, evs) \<Rightarrow> (Inr False, evs)))"

subsection \<open>The print invoker (lines 99 to 122)\<close>

record print_args =
  printer :: string
  pages :: string
  copies :: int
  duplex :: "string option"
  fit :: bool
  media :: "string option"

text \<open>Truth value of an optional string: \<^verbatim>\<open>None\<close> and the empty string are false.\<close>

definition truthy :: "string option \<Rightarrow> bool" where
  "truthy x = (case x of None \<Rightarrow> False | Some s \<Rightarrow> s \<noteq> [])"

definition opt_str :: "string option \<Rightarrow> string" where
  "opt_str x = (case x of None \<Rightarrow> ''None'' | Some s \<Rightarrow> s)"

text \<open>Lines 100 to 111: the command, built by appending to \<^verbatim>\<open>cmd\<close>.\<close>

definition build_cmd :: "string \<Rightarrow> print_args \<Rightarrow> string list" where
  "build_cmd path a =
     (let cmd = [''lp'', ''-d'', printer a];
          cmd = (if copies a \<noteq> 0 \<and> copies a \<noteq> 1
                 then cmd @ [''-n'', py_str_int (copies a)] else cmd);
          cmd = (if pages a \<noteq> [] then cmd @ [''-P'', pages a] else cmd);
          cmd = (if truthy (duplex a)
                 then cmd @ [''-o'', ''sides='' @ opt_str (duplex a)] else cmd);
          cmd = (if fit a then cmd @ [''-o'', ''fit-to-page''] else cmd);
          cmd = (if truthy (media a)
                 then cmd @ [''-o'', ''media='' @ opt_str (media a)] else cmd)
      in cmd @ [path])"

text \<open>
  \<^verbatim>\<open>subprocess.run(cmd, check=True)\<close>: the environment says whether starting the
  command raised or which exit status it returned; a nonzero status raises
  \<^verbatim>\<open>CalledProcessError\<close>.  The script never prints the text of that exception
  (line 118 prints the exit status), so the model keeps a short text for it.
\<close>

definition subprocess_run_check :: "(string list \<Rightarrow> py_exception + int) \<Rightarrow> string list
    \<Rightarrow> (py_exception + unit) \<times> event list" where
  "subprocess_run_check run cmd =
     (case run cmd of
        Inl e \<Rightarrow> (Inl e, [EvRun cmd])
      | Inr rc \<Rightarrow>
          if rc \<noteq> 0
          then (Inl (Exc (CalledProcessError rc)
                  (''Command returned non-zero exit status '' @ py_str_int rc)), [EvRun cmd])
          else (Inr (), [EvRun cmd]))"

text \<open>
  Lines 99 to 122.  The \<^verbatim>\<open>log\<close> of line 113 stands before the \<^verbatim>\<open>try\<close>: when it
  raises, the exception leaves \<^verbatim>\<open>print_pdf\<close> and \<^verbatim>\<open>lp\<close> is not run.  The two
  calls of \<^verbatim>\<open>err\<close> stand in the handlers, so a raise there leaves the function too.
\<close>

definition announce_line :: "string \<Rightarrow> print_args \<Rightarrow> string" where
  "announce_line path a = ''Printing: '' @ join_space (map shlex_quote (build_cmd path a))"

definition print_pdf :: "(string \<Rightarrow> py_exception option)
    \<Rightarrow> (string list \<Rightarrow> py_exception + int) \<Rightarrow> string \<Rightarrow> print_args
    \<Rightarrow> (py_exception + bool) \<times> event list" where
  "print_pdf out run path a =
     (let cmd = build_cmd path a in
      case log_out out (announce_line path a) of
        (Inl e, evs) \<Rightarrow> (Inl e, evs)
      | (Inr u, evs) \<Rightarrow>
          (case subprocess_run_check run cmd of
             (Inr u', evs') \<Rightarrow> (Inr True, evs @ evs')
           | (Inl e, evs') \<Rightarrow>
               (case exc_class e of
                  CalledProcessError rc \<Rightarrow>
                    (case err_out out (''Printing failed with exit code '' @ py_str_int rc) of
                       (Inl e', evs'') \<Rightarrow> (Inl e', evs @ evs' @ evs'')
                     | (Inr u'', evs'') \<Rightarrow> (Inr False, evs @ evs' @ evs''))
                | _ \<Rightarrow>
                    (case err_out out (''Unexpected printing error: '' @ exc_str e) of
                       (Inl e', evs'') \<Rightarrow> (Inl e', evs @ evs' @ evs'')
                     | (Inr u'', evs'') \<Rightarrow> (Inr False, evs @ evs' @ evs'')))))"

text \<open>The commands that a list of events runs, in order.\<close>

fun commands_run :: "event list \<Rightarrow> string list list" where
  "commands_run [] = []"
| "commands_run (EvRun c # evs) = c # commands_run evs"
| "commands_run (e # evs) = commands_run evs"

subsection \<open>The watch loop (lines 124 to 150)\<close>

text \<open>
  What the outside world answers during one cycle of the loop: the directory listing,
  which paths are regular files, what opening and reading a path gives, the modification
  times, how \<^verbatim>\<open>lp\<close> ends for a command, and what stdout does with a line.
\<close>

record 't env =
  listdir :: "string \<Rightarrow> py_exception + string list"
  isfile :: "string \<Rightarrow> bool"
  files :: "string \<Rightarrow> file_node"
  getmtime :: "string \<Rightarrow> py_exception + 't"
  run :: "string list \<Rightarrow> py_exception + int"
  stdout :: "string \<Rightarrow> py_exception option"

text \<open>Line 144: \<^verbatim>\<open>path not in printed_files or printed_files[path] < mtime\<close>.\<close>

definition should_print :: "(string \<rightharpoonup> 't::linorder) \<Rightarrow> string \<Rightarrow> 't \<Rightarrow> bool" where
  "should_print printed_files path mtime =
     (case printed_files path of None \<Rightarrow> True | Some t \<Rightarrow> t < mtime)"

text \<open>
  Lines 138 to 146, the body of the \<^verbatim>\<open>for\<close> loop for one name of the listing.  The
  dictionary \<^verbatim>\<open>printed_files\<close> is updated in place, so the function returns it also
  when it raises.
\<close>

definition scan_entry :: "('t::linorder) env \<Rightarrow> string \<Rightarrow> print_args \<Rightarrow> string
    \<Rightarrow> (string \<rightharpoonup> 't) \<Rightarrow> (py_exception + unit) \<times> (string \<rightharpoonup> 't) \<times> event list" where
  "scan_entry ev folder a name printed_files =
     (let path = os_path_join folder name in
      if \<not> isfile ev path then (Inr (), printed_files, [EvIsfile path])
      else
        (case is_pdf (files ev) path of
           (Inl e, evs1) \<Rightarrow> (Inl e, printed_files, EvIsfile path # evs1)
         | (Inr pdf, evs1) \<Rightarrow>
             if \<not> pdf then (Inr (), printed_files, EvIsfile path # evs1)
             else
               (case getmtime ev path of
                  Inl e \<Rightarrow> (Inl e, printed_files, EvIsfile path # evs1 @ [EvGetmtime path])
                | Inr mtime \<Rightarrow>
                    if should_print printed_files path mtime
                    then
                      (case print_pdf (stdout ev) (run ev) path a of
                         (Inl e, evs2) \<Rightarrow>
                           (Inl e, printed_files,
                            EvIsfile path # evs1 @ [EvGetmtime path] @ evs2)
                       | (Inr ok, evs2) \<Rightarrow>
                           (Inr (),
                            if ok then printed_files(path \<mapsto> mtime) else printed_files,
                            EvIsfile path # evs1 @ [EvGetmtime path] @ evs2))
                    else (Inr (), printed_files,
                          EvIsfile path # evs1 @ [EvGetmtime path]))))"

text \<open>Line 137: the \<^verbatim>\<open>for\<close> loop; a raise ends it.\<close>

fun scan_entries :: "('t::linorder) env \<Rightarrow> string \<Rightarrow> print_args \<Rightarrow> string list
    \<Rightarrow> (string \<rightharpoonup> 't) \<Rightarrow> (py_exception + unit) \<times> (string \<rightharpoonup> 't) \<times> event list" where
  "scan_entries ev folder a [] printed_files = (Inr (), printed_files, [])"
| "scan_entries ev folder a (name # names) printed_files =
     (case scan_entry ev folder a name printed_files of
        (Inl e, pf, evs) \<Rightarrow> (Inl e, pf, evs)
      | (Inr u, pf, evs) \<Rightarrow>
          (case scan_entries ev folder a names pf of
             (r, pf', evs') \<Rightarrow> (r, pf', evs @ evs')))"

text \<open>Lines 137 to 147: the body of the \<^verbatim>\<open>try\<close>.\<close>

definition try_scan :: "('t::linorder) env \<Rightarrow> string \<Rightarrow> print_args
    \<Rightarrow> (string \<rightharpoonup> 't) \<Rightarrow> (py_exception + unit) \<times> (string \<rightharpoonup> 't) \<times> event list" where
  "try_scan ev folder a printed_files =
     (case listdir ev folder of
        Inl e \<Rightarrow> (Inl e, printed_files, [EvListdir folder])
      | Inr names \<Rightarrow>
          (case scan_entries ev folder a names printed_files of
             (Inl e, pf, evs) \<Rightarrow> (Inl e, pf, EvListdir folder # evs)
           | (Inr u, pf, evs) \<Rightarrow> (Inr (), pf, EvListdir folder # evs @ [EvSleep 5])))"

text \<open>
  Lines 136 to 150: one pass through the \<^verbatim>\<open>while\<close> loop, the \<^verbatim>\<open>try\<close> with its
  handler.  The \<^verbatim>\<open>warn\<close> of line 149 stands in the handler: when it raises, the
  exception leaves the pass, before the sleep of line 150.
\<close>

definition scan_warning :: "py_exception \<Rightarrow> string" where
  "scan_warning e = ''Error scanning folder: '' @ exc_str e"

definition watch_cycle :: "('t::linorder) env \<Rightarrow> string \<Rightarrow> print_args
    \<Rightarrow> (string \<rightharpoonup> 't) \<Rightarrow> (py_exception + unit) \<times> (string \<rightharpoonup> 't) \<times> event list" where
  "watch_cycle ev folder a printed_files =
     (case try_scan ev folder a printed_files of
        (Inr u, pf, evs) \<Rightarrow> (Inr (), pf, evs)
      | (Inl e, pf, evs) \<Rightarrow>
          (case warn_out (stdout ev) (scan_warning e) of
             (Inl e', evs') \<Rightarrow> (Inl e', pf, evs @ evs')
           | (Inr u, evs') \<Rightarrow> (Inr (), pf, evs @ evs' @ [EvSleep 5])))"

text \<open>
  Line 135: \<^verbatim>\<open>while True\<close>.  The loop has no exit of its own; the list of environments
  is the fuel, one environment for each cycle that starts before the process is stopped
  from outside.  An exception that leaves a pass ends the loop.
\<close>

fun watch_loop :: "('t::linorder) env list \<Rightarrow> string \<Rightarrow> print_args
    \<Rightarrow> (string \<rightharpoonup> 't) \<Rightarrow> (py_exception + unit) \<times> (string \<rightharpoonup> 't) \<times> event list" where
  "watch_loop [] folder a printed_files = (Inr (), printed_files, [])"
| "watch_loop (ev # envs) folder a printed_files =
     (case watch_cycle ev folder a printed_files of
        (Inl e, pf, evs) \<Rightarrow> (Inl e, pf, evs)
      | (Inr u, pf, evs) \<Rightarrow>
          (case watch_loop envs folder a pf of
             (r, pf', evs') \<Rightarrow> (r, pf', evs @ evs')))"

text \<open>Lines 124 to 150; installing the signal handler has no event.  The first argument
  is what stdout does with the two lines written before the loop.\<close>

definition watch_folder :: "(string \<Rightarrow> py_exception option) \<Rightarrow> ('t::linorder) env list
    \<Rightarrow> string \<Rightarrow> print_args
    \<Rightarrow> (py_exception + unit) \<times> (string \<rightharpoonup> 't) \<times> event list" where
  "watch_folder out envs folder a =
     (case log_out out (''Watching folder: '' @ folder) of
        (Inl e, evs1) \<Rightarrow> (Inl e, Map.empty, evs1)
      | (Inr u, evs1) \<Rightarrow>
          (case log_out out ''Press Ctrl+C to stop.'' of
             (Inl e, evs2) \<Rightarrow> (Inl e, Map.empty, evs1 @ evs2)
           | (Inr u', evs2) \<Rightarrow>
               (case watch_loop envs folder a Map.empty of
                  (r, pf, evs) \<Rightarrow> (r, pf, evs1 @ evs2 @ evs))))"

text \<open>The events and the history a cycle or a run leaves, and the events of one
  kind.\<close>

definition cycle_events :: "('t::linorder) env \<Rightarrow> string \<Rightarrow> print_args
    \<Rightarrow> (string \<rightharpoonup> 't) \<Rightarrow> event list" where
  "cycle_events ev folder a pf = snd (snd (watch_cycle ev folder a pf))"

definition cycle_history :: "('t::linorder) env \<Rightarrow> string \<Rightarrow> print_args
    \<Rightarrow> (string \<rightharpoonup> 't) \<Rightarrow> (string \<rightharpoonup> 't)" where
  "cycle_history ev folder a pf = fst (snd (watch_cycle ev folder a pf))"

definition loop_events :: "('t::linorder) env list \<Rightarrow> string \<Rightarrow> print_args
    \<Rightarrow> (string \<rightharpoonup> 't) \<Rightarrow> event list" where
  "loop_events envs folder a pf = snd (snd (watch_loop envs folder a pf))"

definition loop_history :: "('t::linorder) env list \<Rightarrow> string \<Rightarrow> print_args
    \<Rightarrow> (string \<rightharpoonup> 't) \<Rightarrow> (string \<rightharpoonup> 't)" where
  "loop_history envs folder a pf = fst (snd (watch_loop envs folder a pf))"

text \<open>A file is submitted when \<^verbatim>\<open>lp\<close> is run on the command built for its path.\<close>

definition submitted :: "string \<Rightarrow> print_args \<Rightarrow> event list \<Rightarrow> bool" where
  "submitted path a evs = (EvRun (build_cmd path a) \<in> set evs)"


text \<open>The scan of a cycle reaches a file when it reads the file's modification time
  (line 143).\<close>

definition observed :: "string \<Rightarrow> event list \<Rightarrow> bool" where
  "observed path evs = (EvGetmtime path \<in> set evs)"

text \<open>The print invoker reports success for a path in an environment.\<close>

definition print_succeeds :: "('t::linorder) env \<Rightarrow> string \<Rightarrow> print_args \<Rightarrow> bool" where
  "print_succeeds ev path a = (fst (print_pdf (stdout ev) (run ev) path a) = Inr True)"

text \<open>Stdout takes the line of line 113 for a path; stdout takes the warning of line 149
  for an exception.\<close>

definition can_announce :: "('t::linorder) env \<Rightarrow> string \<Rightarrow> print_args \<Rightarrow> bool" where
  "can_announce ev path a = (stdout ev (announce_line path a) = None)"

definition can_warn :: "('t::linorder) env \<Rightarrow> py_exception \<Rightarrow> bool" where
  "can_warn ev e = (stdout ev (''WARNING: '' @ scan_warning e) = None)"

subsection \<open>Option acquisition (lines 57 to 88)\<close>

text \<open>
  The answers typed at the prompts are a list of lines; \<^verbatim>\<open>input\<close> takes the first
  and raises \<^verbatim>\<open>EOFError\<close> when none is left.  Every function returns the lines it
  did not read.  In this part stdout is taken to accept every line: a raise of
  \<^verbatim>\<open>print\<close> would leave \<^verbatim>\<open>get_print_options\<close>, and the properties proved of it
  are about the runs that return.
\<close>

definition EOF :: py_exception where
  "EOF = Exc EOFError ''EOF when reading a line''"

definition input_line :: "string \<Rightarrow> string list
    \<Rightarrow> (py_exception + string) \<times> string list \<times> event list" where
  "input_line prompt stdin =
     (case stdin of
        [] \<Rightarrow> (Inl EOF, [], [EvPrompt prompt])
      | l # ls \<Rightarrow> (Inr l, ls, [EvPrompt prompt]))"

definition copies_prompt :: string where
  "copies_prompt = ''Enter number of copies (default 1): ''"

definition copies_warning :: string where
  "copies_warning = ''Invalid number of copies. Please enter a positive integer.''"

text \<open>
  Lines 59 to 67.  The guard \<^verbatim>\<open>copies.isdigit() and int(copies) > 0\<close> and the
  assignment \<^verbatim>\<open>copies = int(copies)\<close> convert the same string; the model converts
  once.
\<close>

fun ask_copies :: "string list \<Rightarrow> (py_exception + int) \<times> string list \<times> event list" where
  "ask_copies [] = (Inl EOF, [], [EvPrompt copies_prompt])"
| "ask_copies (line # rest) =
     (let copies' = py_strip line in
      if copies' = [] then (Inr 1, rest, [EvPrompt copies_prompt])
      else if py_isdigit copies' then
        (case py_int copies' of
           Inl e \<Rightarrow> (Inl e, rest, [EvPrompt copies_prompt])
         | Inr n \<Rightarrow>
             if n > 0 then (Inr n, rest, [EvPrompt copies_prompt])
             else
               (case ask_copies rest of
                  (r, rest', evs) \<Rightarrow>
                    (r, rest', EvPrompt copies_prompt # warn copies_warning @ evs)))
      else
        (case ask_copies rest of
           (r, rest', evs) \<Rightarrow>
             (r, rest', EvPrompt copies_prompt # warn copies_warning @ evs)))"

definition duplex_modes :: "string list" where
  "duplex_modes = [''one-sided'', ''two-sided-long-edge'', ''two-sided-short-edge'']"

definition duplex_prompt :: string where
  "duplex_prompt = ''Choose duplex mode [1-3] or press Enter for default: ''"

definition duplex_warning :: string where
  "duplex_warning = ''Invalid duplex choice. Please enter 1, 2, 3, or press Enter.''"

text \<open>Lines 73 to 81.\<close>

fun ask_duplex :: "string list
    \<Rightarrow> (py_exception + string option) \<times> string list \<times> event list" where
  "ask_duplex [] = (Inl EOF, [], [EvPrompt duplex_prompt])"
| "ask_duplex (line # rest) =
     (let duplex_choice = py_strip line in
      if duplex_choice = [] then (Inr None, rest, [EvPrompt duplex_prompt])
      else if py_isdigit duplex_choice then
        (case py_int duplex_choice of
           Inl e \<Rightarrow> (Inl e, rest, [EvPrompt duplex_prompt])
         | Inr n \<Rightarrow>
             if 1 \<le> n \<and> n \<le> int (length duplex_modes)
             then (Inr (Some (duplex_modes ! nat (n - 1))), rest, [EvPrompt duplex_prompt])
             else
               (case ask_duplex rest of
                  (r, rest', evs) \<Rightarrow>
                    (r, rest', EvPrompt duplex_prompt # warn duplex_warning @ evs)))
      else
        (case ask_duplex rest of
           (r, rest', evs) \<Rightarrow>
             (r, rest', EvPrompt duplex_prompt # warn duplex_warning @ evs)))"

definition pages_prompt :: string where
  "pages_prompt = ''Enter page ranges (e.g., 1-3,5,7) or press Enter for all pages: ''"

definition fit_prompt :: string where
  "fit_prompt = ''Fit to page? (Y/N, default N): ''"

definition media_prompt :: string where
  "media_prompt = ''Enter paper size (e.g., Letter, A4) or press Enter for default: ''"

text \<open>Lines 70 to 72: the menu of duplex modes.\<close>

definition duplex_menu :: "event list" where
  "duplex_menu =
     EvStdout ''Duplex options:''
     # map (\<lambda>(i, mode). EvStdout (str_nat i @ ''. '' @ mode))
         (zip [1 ..< Suc (length duplex_modes)] duplex_modes)"

text \<open>Lines 57 to 88; the result is the tuple
  \<^verbatim>\<open>(pages, copies, duplex, fit, media)\<close>.\<close>

definition get_print_options :: "string list
    \<Rightarrow> (py_exception + string \<times> int \<times> string option \<times> bool \<times> string option)
       \<times> string list \<times> event list" where
  "get_print_options stdin =
     (case input_line pages_prompt stdin of
        (Inl e, s1, ev1) \<Rightarrow> (Inl e, s1, ev1)
      | (Inr l1, s1, ev1) \<Rightarrow>
          (case ask_copies s1 of
             (Inl e, s2, ev2) \<Rightarrow> (Inl e, s2, ev1 @ ev2)
           | (Inr copies', s2, ev2) \<Rightarrow>
               (case ask_duplex s2 of
                  (Inl e, s3, ev3) \<Rightarrow> (Inl e, s3, ev1 @ ev2 @ duplex_menu @ ev3)
                | (Inr duplex', s3, ev3) \<Rightarrow>
                    (case input_line fit_prompt s3 of
                       (Inl e, s4, ev4) \<Rightarrow>
                         (Inl e, s4, ev1 @ ev2 @ duplex_menu @ ev3 @ ev4)
                     | (Inr l4, s4, ev4) \<Rightarrow>
                         (case input_line media_prompt s4 of
                            (Inl e, s5, ev5) \<Rightarrow>
                              (Inl e, s5, ev1 @ ev2 @ duplex_menu @ ev3 @ ev4 @ ev5)
                          | (Inr l5, s5, ev5) \<Rightarrow>
                              (Inr (py_strip l1, copies', duplex',
                                    py_lower (py_strip l4) = ''y'',
                                    if py_strip l5 = [] then None else Some (py_strip l5)),
                               s5, ev1 @ ev2 @ duplex_menu @ ev3 @ ev4 @ ev5))))))"

text \<open>
  What the two validation loops do with one answer, read off their branches: an answer is
  accepted with a value, or rejected with a warning and a new prompt.  (A digit string
  that \<^verbatim>\<open>int\<close> refuses is neither: the \<^verbatim>\<open>ValueError\<close> leaves the function.)
\<close>

definition copies_accepts :: "string \<Rightarrow> int \<Rightarrow> bool" where
  "copies_accepts line n =
     (if py_strip line = [] then n = 1
      else py_isdigit (py_strip line) \<and> py_int (py_strip line) = Inr n \<and> 0 < n)"

definition copies_rejects :: "string \<Rightarrow> bool" where
  "copies_rejects line =
     (py_strip line \<noteq> [] \<and>
      (\<not> py_isdigit (py_strip line) \<or>
       (case py_int (py_strip line) of Inl e \<Rightarrow> False | Inr n \<Rightarrow> n \<le> 0)))"

definition duplex_accepts :: "string \<Rightarrow> string option \<Rightarrow> bool" where
  "duplex_accepts line d =
     (if py_strip line = [] then d = None
      else py_isdigit (py_strip line) \<and>
           (case py_int (py_strip line) of
              Inl e \<Rightarrow> False
            | Inr n \<Rightarrow> 1 \<le> n \<and> n \<le> 3 \<and> d = Some (duplex_modes ! nat (n - 1))))"

definition duplex_rejects :: "string \<Rightarrow> bool" where
  "duplex_rejects line =
     (py_strip line \<noteq> [] \<and>
      (\<not> py_isdigit (py_strip line) \<or>
       (case py_int (py_strip line) of Inl e \<Rightarrow> False | Inr n \<Rightarrow> n < 1 \<or> 3 < n)))"

definition warnings :: "event list \<Rightarrow> nat" where
  "warnings evs = length (filter (\<lambda>e. case e of EvLog m \<Rightarrow> startswith m ''WARNING: '' | _ \<Rightarrow> False) evs)"

subsection \<open>Scenarios\<close>

text \<open>
  Concrete environments for the examples below: the watched folder is \<^verbatim>\<open>/watch\<close>, every
  path is a regular file that starts with the PDF magic bytes, stdout takes every line,
  and the listing, the modification times and the exit status of \<^verbatim>\<open>lp\<close> are given.
  \<open>broken_pipe\<close> is what \<^verbatim>\<open>print\<close> raises on a stdout that is closed.
\<close>

definition scenario :: "(py_exception + string list) \<Rightarrow> (string \<Rightarrow> py_exception + nat)
    \<Rightarrow> int \<Rightarrow> nat env" where
  "scenario ls mt rc =
     \<lparr>listdir = (\<lambda>d. ls), isfile = (\<lambda>p. True), files = (\<lambda>p. Content ''%PDF-1.7''),
      getmtime = mt, run = (\<lambda>c. Inr rc), stdout = (\<lambda>l. None)\<rparr>"

definition plain_args :: print_args where
  "plain_args =
     \<lparr>printer = ''HP'', pages = [], copies = 1, duplex = None, fit = False, media = None\<rparr>"

definition gone :: py_exception where
  "gone = Exc OSError ''No such file or directory''"

definition broken_pipe :: py_exception where
  "broken_pipe = Exc OSError ''Broken pipe''"

section \<open>Properties\<close>

subsection \<open>The print invoker and the sniffer\<close>

lemma build_cmd_last: "last (build_cmd path a) = path"
  by (simp add: build_cmd_def Let_def)

lemma build_cmd_inj: "build_cmd p a = build_cmd q a \<Longrightarrow> p = q"
  by (metis build_cmd_last)

lemma log_out_events:
  "e \<in> set (snd (log_out out msg)) \<Longrightarrow> e = EvLog msg"
  by (auto simp: log_out_def log_def split: option.splits)

lemma log_out_ok: "fst (log_out out msg) = Inr () \<longleftrightarrow> out msg = None"
  by (auto simp: log_out_def split: option.splits)

lemma print_pdf_run:
  "EvRun c \<in> set (snd (print_pdf out r path a))
   \<longleftrightarrow> c = build_cmd path a \<and> out (announce_line path a) = None"
  by (auto simp: print_pdf_def subprocess_run_check_def Let_def log_out_def err_out_def log_def
           split: sum.splits exc_class.splits prod.splits option.splits)


lemma print_pdf_commands:
  "commands_run (snd (print_pdf out r path a))
   = (if out (announce_line path a) = None then [build_cmd path a] else [])"
  by (auto simp: print_pdf_def subprocess_run_check_def Let_def log_out_def err_out_def log_def
           split: sum.splits exc_class.splits prod.splits option.splits)

lemma print_pdf_stat: "EvGetmtime q \<notin> set (snd (print_pdf out r path a))"
  by (auto simp: print_pdf_def subprocess_run_check_def Let_def log_out_def err_out_def log_def
           split: sum.splits exc_class.splits prod.splits option.splits)

lemma print_pdf_no_open:
  "EvOpen q \<notin> set (snd (print_pdf out r path a))"
  "EvRead q n \<notin> set (snd (print_pdf out r path a))"
  "EvSleep k \<notin> set (snd (print_pdf out r path a))"
  "EvListdir d \<notin> set (snd (print_pdf out r path a))"
  by (auto simp: print_pdf_def subprocess_run_check_def Let_def log_out_def err_out_def log_def
           split: sum.splits exc_class.splits prod.splits option.splits)

lemma print_pdf_success:
  "fst (print_pdf out r path a) = Inr True \<Longrightarrow> out (announce_line path a) = None"
  by (auto simp: print_pdf_def subprocess_run_check_def Let_def log_out_def err_out_def log_def
           split: sum.splits exc_class.splits prod.splits option.splits if_splits)


lemma is_pdf_Inr: "\<exists>b. fst (is_pdf fs path) = Inr b"
  by (auto simp: is_pdf_def open_read_def split: file_node.splits prod.splits sum.splits)

lemma is_pdf_events: "EvRun c \<notin> set (snd (is_pdf fs path))" "EvGetmtime q \<notin> set (snd (is_pdf fs path))"
  by (auto simp: is_pdf_def open_read_def split: file_node.splits prod.splits sum.splits)


text \<open>The body of the loop as one nest of conditionals.\<close>

lemma scan_entry_unfold:
  "scan_entry ev folder a name h =
     (let path = os_path_join folder name; r = is_pdf (files ev) path;
          pr = print_pdf (stdout ev) (run ev) path a in
      if \<not> isfile ev path then (Inr (), h, [EvIsfile path])
      else if fst r \<noteq> Inr True then (Inr (), h, EvIsfile path # snd r)
      else (case getmtime ev path of
              Inl e \<Rightarrow> (Inl e, h, EvIsfile path # snd r @ [EvGetmtime path])
            | Inr m \<Rightarrow>
                if should_print h path m
                then (case fst pr of
                        Inl e \<Rightarrow> (Inl e, h, EvIsfile path # snd r @ [EvGetmtime path] @ snd pr)
                      | Inr ok \<Rightarrow>
                          (Inr (), if ok then h(path \<mapsto> m) else h,
                           EvIsfile path # snd r @ [EvGetmtime path] @ snd pr))
                else (Inr (), h, EvIsfile path # snd r @ [EvGetmtime path])))"
  using is_pdf_Inr[of "files ev" "os_path_join folder name"]
  by (auto simp: scan_entry_def Let_def split: prod.splits sum.splits)

lemma scan_entry_run_stat:
  assumes "EvRun c \<in> set (snd (snd (scan_entry ev folder a name h)))"
  shows "c = build_cmd (os_path_join folder name) a"
    and "EvGetmtime (os_path_join folder name) \<in> set (snd (snd (scan_entry ev folder a name h)))"
  using assms is_pdf_events[of _ "files ev" "os_path_join folder name"]
  by (auto simp: scan_entry_unfold Let_def print_pdf_run split: sum.splits if_splits)

lemma scan_entry_stat:
  assumes "EvGetmtime q \<in> set (snd (snd (scan_entry ev folder a name h)))"
  shows "q = os_path_join folder name"
  using assms is_pdf_events[of _ "files ev" "os_path_join folder name"] print_pdf_stat
  by (auto simp: scan_entry_unfold Let_def split: sum.splits if_splits)

lemma scan_entry_decide:
  assumes "EvGetmtime p \<in> set (snd (snd (scan_entry ev folder a name h)))"
    and "getmtime ev p = Inr m"
  shows "EvRun (build_cmd p a) \<in> set (snd (snd (scan_entry ev folder a name h)))
         \<longleftrightarrow> should_print h p m \<and> can_announce ev p a"
proof -
  have p: "p = os_path_join folder name" using assms(1) by (rule scan_entry_stat)
  show ?thesis
    using assms is_pdf_events[of _ "files ev" "os_path_join folder name"] unfolding p
    by (auto simp: scan_entry_unfold Let_def print_pdf_run can_announce_def
             split: sum.splits if_splits)
qed

lemma scan_entry_hist_norun:
  assumes "EvRun (build_cmd p a) \<notin> set (snd (snd (scan_entry ev folder a name h)))"
  shows "fst (snd (scan_entry ev folder a name h)) p = h p"
  using assms print_pdf_success[of "stdout ev" "run ev" "os_path_join folder name" a]
  by (auto simp: scan_entry_unfold Let_def print_pdf_run split: sum.splits if_splits)


lemma scan_entry_hist_raise:
  assumes "fst (scan_entry ev folder a name h) = Inl e"
  shows "fst (snd (scan_entry ev folder a name h)) = h"
  using assms
  by (auto simp: scan_entry_unfold Let_def split: sum.splits if_splits)

lemma scan_entry_hist_ok:
  assumes "EvRun (build_cmd p a) \<in> set (snd (snd (scan_entry ev folder a name h)))"
    and "print_succeeds ev p a" and "getmtime ev p = Inr m"
  shows "fst (snd (scan_entry ev folder a name h)) = h(p \<mapsto> m)"
proof -
  have p: "p = os_path_join folder name"
    using scan_entry_run_stat(1)[OF assms(1)] by (rule build_cmd_inj)
  show ?thesis using assms is_pdf_events[of _ "files ev" "os_path_join folder name"] unfolding p
    by (auto simp: scan_entry_unfold Let_def print_pdf_run print_succeeds_def
             split: sum.splits if_splits)
qed

lemma scan_entry_update:
  "fst (snd (scan_entry ev folder a name h)) = h \<or>
   (\<exists>m. fst (snd (scan_entry ev folder a name h)) = h(os_path_join folder name \<mapsto> m)
        \<and> should_print h (os_path_join folder name) m)"
  by (auto simp: scan_entry_unfold Let_def split: sum.splits if_splits)


lemma scan_entry_getmtime_raises:
  assumes "isfile ev (os_path_join folder name)"
    and "fst (is_pdf (files ev) (os_path_join folder name)) = Inr True"
    and "getmtime ev (os_path_join folder name) = Inl e"
  shows "fst (scan_entry ev folder a name h) = Inl e"
  using assms by (simp add: scan_entry_unfold Let_def)

text \<open>
  When standard output refuses the line that announces the command (line 113, before the
  \<^verbatim>\<open>try\<close>), the exception leaves \<open>print_pdf\<close> before anything is run, and it ends
  the scan of the cycle with the history as it was.
\<close>

lemma print_pdf_unannounced:
  "out (announce_line path a) = Some e \<Longrightarrow> print_pdf out r path a = (Inl e, [])"
  by (simp add: print_pdf_def log_out_def Let_def)

lemma unannounced_print_ends_scan:
  assumes "isfile ev (os_path_join folder name)"
    and "fst (is_pdf (files ev) (os_path_join folder name)) = Inr True"
    and "getmtime ev (os_path_join folder name) = Inr m"
    and "should_print h (os_path_join folder name) m"
    and "stdout ev (announce_line (os_path_join folder name) a) = Some e"
  shows "fst (scan_entry ev folder a name h) = Inl e"
    and "fst (snd (scan_entry ev folder a name h)) = h"
    and "\<not> submitted (os_path_join folder name) a (snd (snd (scan_entry ev folder a name h)))"
proof -
  have p: "print_pdf (stdout ev) (run ev) (os_path_join folder name) a = (Inl e, [])"
    using assms(5) by (rule print_pdf_unannounced)
  show "fst (scan_entry ev folder a name h) = Inl e"
    and "fst (snd (scan_entry ev folder a name h)) = h"
    using assms(1-4) p by (simp_all add: scan_entry_unfold Let_def)
  show "\<not> submitted (os_path_join folder name) a (snd (snd (scan_entry ev folder a name h)))"
    using assms(1-4) p is_pdf_events(1)[of _ "files ev" "os_path_join folder name"]
    by (simp add: scan_entry_unfold Let_def submitted_def)
qed

subsection \<open>The scan of one listing\<close>

lemma should_print_iff:
  "should_print h p m \<longleftrightarrow> h p = None \<or> (\<exists>t. h p = Some t \<and> t < m)"
  by (auto simp: should_print_def split: option.splits)

text \<open>One step of the loop over the listing.\<close>

lemma scan_entries_raise:
  "fst (scan_entry ev folder a name h) \<noteq> Inr ()
   \<Longrightarrow> scan_entries ev folder a (name # names) h = scan_entry ev folder a name h"
  by (auto split: prod.splits sum.splits)

lemma scan_entries_ok:
  "fst (scan_entry ev folder a name h) = Inr ()
   \<Longrightarrow> scan_entries ev folder a (name # names) h =
       (fst (scan_entries ev folder a names (fst (snd (scan_entry ev folder a name h)))),
        fst (snd (scan_entries ev folder a names (fst (snd (scan_entry ev folder a name h))))),
        snd (snd (scan_entry ev folder a name h))
        @ snd (snd (scan_entries ev folder a names (fst (snd (scan_entry ev folder a name h))))))"
  by (auto split: prod.splits sum.splits)

lemmas scan_entries_Cons = scan_entries_raise scan_entries_ok

declare scan_entries.simps(2) [simp del]

lemma scan_entry_run_stat_p:
  assumes "EvRun (build_cmd p a) \<in> set (snd (snd (scan_entry ev folder a name h)))"
  shows "EvGetmtime p \<in> set (snd (snd (scan_entry ev folder a name h)))"
proof -
  have "p = os_path_join folder name"
    using scan_entry_run_stat(1)[OF assms] by (rule build_cmd_inj)
  then show ?thesis using scan_entry_run_stat(2)[OF assms] by simp
qed

lemma scan_entries_run_stat:
  "EvRun (build_cmd p a) \<in> set (snd (snd (scan_entries ev folder a names h)))
   \<Longrightarrow> EvGetmtime p \<in> set (snd (snd (scan_entries ev folder a names h)))"
proof (induction names arbitrary: h)
  case Nil
  then show ?case by simp
next
  case (Cons name names)
  let ?r = "scan_entry ev folder a name h"
  show ?case
  proof (cases "fst ?r = Inr ()")
    case False
    with Cons.prems have "EvRun (build_cmd p a) \<in> set (snd (snd ?r))"
      by (simp add: scan_entries_Cons)
    then have "EvGetmtime p \<in> set (snd (snd ?r))"
      by (rule scan_entry_run_stat_p)
    with False show ?thesis by (simp add: scan_entries_Cons)
  next
    case True
    show ?thesis
    proof (cases "EvRun (build_cmd p a) \<in> set (snd (snd ?r))")
      case here: True
      then have "EvGetmtime p \<in> set (snd (snd ?r))"
        by (rule scan_entry_run_stat_p)
      with True show ?thesis by (simp add: scan_entries_Cons)
    next
      case False
      with Cons.prems True
      have "EvRun (build_cmd p a) \<in> set (snd (snd (scan_entries ev folder a names (fst (snd ?r)))))"
        by (simp add: scan_entries_Cons)
      from Cons.IH[OF this] True show ?thesis
        by (simp add: scan_entries_Cons)
    qed
  qed
qed

lemma scan_entries_events_ok:
  "fst (scan_entry ev folder a name h) = Inr ()
   \<Longrightarrow> set (snd (snd (scan_entries ev folder a (name # names) h)))
       = set (snd (snd (scan_entry ev folder a name h)))
         \<union> set (snd (snd (scan_entries ev folder a names (fst (snd (scan_entry ev folder a name h))))))"
  by (simp add: scan_entries_ok)

lemma scan_entries_decide:
  "EvGetmtime p \<in> set (snd (snd (scan_entries ev folder a names h)))
   \<Longrightarrow> getmtime ev p = Inr m
   \<Longrightarrow> EvRun (build_cmd p a) \<in> set (snd (snd (scan_entries ev folder a names h)))
       \<longleftrightarrow> should_print h p m \<and> can_announce ev p a"
proof (induction names arbitrary: h)
  case Nil
  then show ?case by simp
next
  case (Cons name names)
  let ?r = "scan_entry ev folder a name h"
  let ?h1 = "fst (snd ?r)"
  let ?rest = "scan_entries ev folder a names ?h1"
  let ?run = "EvRun (build_cmd p a)"
  show ?case
  proof (cases "fst ?r = Inr ()")
    case False
    then have raised: "scan_entries ev folder a (name # names) h = ?r"
      by (rule scan_entries_raise)
    with Cons.prems(1) have "EvGetmtime p \<in> set (snd (snd ?r))"
      by (simp only:)
    from scan_entry_decide[OF this Cons.prems(2)] raised show ?thesis
      by (simp only:)
  next
    case True
    note evs = scan_entries_events_ok[OF True, of names]
    show ?thesis
    proof (cases "EvGetmtime p \<in> set (snd (snd ?r))")
      case here: True
      note dec = scan_entry_decide[OF here Cons.prems(2)]
      show ?thesis
      proof (cases "should_print h p m \<and> can_announce ev p a")
        case True
        with dec have "?run \<in> set (snd (snd ?r))" by blast
        with evs True show ?thesis by blast
      next
        case False
        with dec have norun: "?run \<notin> set (snd (snd ?r))" by blast
        have "?h1 p = h p" using scan_entry_hist_norun[OF norun] .
        then have sp: "\<not> (should_print ?h1 p m \<and> can_announce ev p a)" using False
          by (simp add: should_print_def)
        have "?run \<notin> set (snd (snd ?rest))"
        proof
          assume r: "?run \<in> set (snd (snd ?rest))"
          then have "EvGetmtime p \<in> set (snd (snd ?rest))" by (rule scan_entries_run_stat)
          from Cons.IH[OF this Cons.prems(2)] r sp show False by blast
        qed
        with norun False evs show ?thesis by blast
      qed
    next
      case False
      then have norun: "?run \<notin> set (snd (snd ?r))"
        using scan_entry_run_stat_p[of p a ev folder name h] by blast
      have "?h1 p = h p" using scan_entry_hist_norun[OF norun] .
      then have sp: "should_print ?h1 p m = should_print h p m"
        by (simp add: should_print_def)
      from False Cons.prems(1) evs have "EvGetmtime p \<in> set (snd (snd ?rest))" by blast
      from Cons.IH[OF this Cons.prems(2)] norun sp evs show ?thesis by blast
    qed
  qed
qed

text \<open>A path whose stored time is not older than what the scan reads is left alone.\<close>

lemma scan_entry_keep:
  assumes "h p = Some t" and "\<And>m. getmtime ev p = Inr m \<Longrightarrow> m \<le> t"
  shows "EvRun (build_cmd p a) \<notin> set (snd (snd (scan_entry ev folder a name h)))"
proof
  assume r: "EvRun (build_cmd p a) \<in> set (snd (snd (scan_entry ev folder a name h)))"
  have p: "p = os_path_join folder name"
    using scan_entry_run_stat(1)[OF r] by (rule build_cmd_inj)
  from r assms show False
    using is_pdf_events[of _ "files ev" "os_path_join folder name"] unfolding p
    by (auto simp: scan_entry_unfold Let_def print_pdf_run should_print_def split: sum.splits if_splits)
qed

lemma scan_entries_keep:
  assumes "h p = Some t" and "\<And>m. getmtime ev p = Inr m \<Longrightarrow> m \<le> t"
  shows "EvRun (build_cmd p a) \<notin> set (snd (snd (scan_entries ev folder a names h)))
         \<and> fst (snd (scan_entries ev folder a names h)) p = Some t"
  using assms(1)
proof (induction names arbitrary: h)
  case Nil
  then show ?case by simp
next
  case (Cons name names)
  let ?r = "scan_entry ev folder a name h"
  have norun: "EvRun (build_cmd p a) \<notin> set (snd (snd ?r))"
    using Cons.prems assms(2) by (rule scan_entry_keep)
  then have h1: "fst (snd ?r) p = Some t"
    using scan_entry_hist_norun[OF norun] Cons.prems by simp
  from Cons.IH[of "fst (snd ?r)", OF h1] norun h1 show ?case
    by (cases "fst ?r = Inr ()") (simp_all add: scan_entries_Cons)
qed

text \<open>Stored times only grow.\<close>

lemma scan_entry_mono:
  assumes "h q = Some t"
  shows "\<exists>t'. fst (snd (scan_entry ev folder a name h)) q = Some t' \<and> t \<le> t'"
  using scan_entry_update[of ev folder a name h] assms
  by (auto simp: should_print_def split: option.splits if_splits)

lemma scan_entries_mono:
  "h q = Some t \<Longrightarrow> \<exists>t'. fst (snd (scan_entries ev folder a names h)) q = Some t' \<and> t \<le> t'"
proof (induction names arbitrary: h t)
  case Nil
  then show ?case by simp
next
  case (Cons name names)
  let ?r = "scan_entry ev folder a name h"
  from scan_entry_mono[of h q t, OF Cons.prems] obtain t1 where
    t1: "fst (snd ?r) q = Some t1" "t \<le> t1" by blast
  from Cons.IH[of "fst (snd ?r)" t1, OF t1(1)] obtain t2 where
    t2: "fst (snd (scan_entries ev folder a names (fst (snd ?r)))) q = Some t2" "t1 \<le> t2" by blast
  show ?case
  proof (cases "fst ?r = Inr ()")
    case True
    with t2 t1 show ?thesis by (auto simp: scan_entries_Cons)
  next
    case False
    with t1 show ?thesis by (auto simp: scan_entries_Cons)
  qed
qed




lemma scan_entries_hist_ok:
  assumes ok: "print_succeeds ev p a" and mt: "getmtime ev p = Inr m"
  shows "EvRun (build_cmd p a) \<in> set (snd (snd (scan_entries ev folder a names h)))
         \<Longrightarrow> fst (snd (scan_entries ev folder a names h)) p = Some m"
proof (induction names arbitrary: h)
  case Nil
  then show ?case by simp
next
  case (Cons name names)
  let ?r = "scan_entry ev folder a name h"
  let ?h1 = "fst (snd ?r)"
  let ?rest = "scan_entries ev folder a names ?h1"
  let ?run = "EvRun (build_cmd p a)"
  show ?case
  proof (cases "?run \<in> set (snd (snd ?r))")
    case True
    have "?h1 = h(p \<mapsto> m)" using True ok mt by (rule scan_entry_hist_ok)
    then have h1: "?h1 p = Some m" by simp
    show ?thesis
    proof (cases "fst ?r = Inr ()")
      case okr: True
      have "fst (snd ?rest) p = Some m"
        using scan_entries_keep[of ?h1 p m ev a folder names, OF h1] mt by simp
      with okr show ?thesis by (simp add: scan_entries_ok)
    next
      case False
      with h1 show ?thesis by (simp add: scan_entries_raise)
    qed
  next
    case False
    show ?thesis
    proof (cases "fst ?r = Inr ()")
      case True
      with Cons.prems False have "?run \<in> set (snd (snd ?rest))"
        by (simp add: scan_entries_ok)
      from Cons.IH[OF this] True show ?thesis by (simp add: scan_entries_ok)
    next
      case ne: False
      with Cons.prems False show ?thesis by (simp add: scan_entries_raise)
    qed
  qed
qed



subsection \<open>One cycle\<close>

lemma try_scan_listdir_raises:
  "listdir ev folder = Inl e \<Longrightarrow> try_scan ev folder a h = (Inl e, h, [EvListdir folder])"
  by (simp add: try_scan_def)

lemma try_scan_listed:
  "listdir ev folder = Inr names \<Longrightarrow>
   try_scan ev folder a h =
     (fst (scan_entries ev folder a names h), fst (snd (scan_entries ev folder a names h)),
      EvListdir folder # snd (snd (scan_entries ev folder a names h))
      @ (case fst (scan_entries ev folder a names h) of Inr u \<Rightarrow> [EvSleep 5] | Inl e \<Rightarrow> []))"
  by (auto simp: try_scan_def split: prod.splits sum.splits)

lemma watch_cycle_ok:
  "fst (try_scan ev folder a h) = Inr () \<Longrightarrow>
   watch_cycle ev folder a h = (Inr (), snd (try_scan ev folder a h))"
  by (auto simp: watch_cycle_def split: prod.splits sum.splits)

lemma watch_cycle_warned:
  "fst (try_scan ev folder a h) = Inl e \<Longrightarrow> can_warn ev e \<Longrightarrow>
   watch_cycle ev folder a h =
     (Inr (), fst (snd (try_scan ev folder a h)),
      snd (snd (try_scan ev folder a h)) @ warn (scan_warning e) @ [EvSleep 5])"
  by (auto simp: watch_cycle_def can_warn_def warn_out_def log_out_def warn_def
           split: prod.splits sum.splits option.splits)

lemma watch_cycle_unwarned:
  "fst (try_scan ev folder a h) = Inl e \<Longrightarrow> stdout ev (''WARNING: '' @ scan_warning e) = Some e' \<Longrightarrow>
   watch_cycle ev folder a h =
     (Inl e', fst (snd (try_scan ev folder a h)), snd (snd (try_scan ev folder a h)))"
  by (auto simp: watch_cycle_def warn_out_def log_out_def
           split: prod.splits sum.splits option.splits)

text \<open>Around the events of the scan a cycle has the listing, and at most a warning and a
  sleep.\<close>

lemma cycle_shape:
  "\<exists>tail. cycle_events ev folder a h =
            EvListdir folder
            # (case listdir ev folder of Inl e \<Rightarrow> []
               | Inr names \<Rightarrow> snd (snd (scan_entries ev folder a names h)))
            @ tail
          \<and> set tail \<subseteq> insert (EvSleep 5) (range EvLog)
          \<and> (fst (watch_cycle ev folder a h) = Inr () \<longrightarrow> count_list tail (EvSleep 5) = 1)"
proof (cases "fst (try_scan ev folder a h)")
  case (Inr u)
  then have ok: "fst (try_scan ev folder a h) = Inr ()" by simp
  then obtain names where n: "listdir ev folder = Inr names"
    by (cases "listdir ev folder") (simp_all add: try_scan_listdir_raises)
  with ok have sc: "fst (scan_entries ev folder a names h) = Inr ()"
    by (simp add: try_scan_listed)
  show ?thesis
    by (rule exI[of _ "[EvSleep 5]"])
       (simp add: cycle_events_def watch_cycle_ok[OF ok] try_scan_listed[OF n] n sc)
next
  case (Inl e)
  have scan: "snd (snd (try_scan ev folder a h)) =
            EvListdir folder
            # (case listdir ev folder of Inl e \<Rightarrow> []
               | Inr names \<Rightarrow> snd (snd (scan_entries ev folder a names h)))"
  proof (cases "listdir ev folder")
    case l: (Inl e0)
    then show ?thesis by (simp add: try_scan_listdir_raises)
  next
    case r: (Inr names)
    with Inl show ?thesis by (auto simp: try_scan_listed split: sum.splits)
  qed
  show ?thesis
  proof (cases "stdout ev (''WARNING: '' @ scan_warning e)")
    case None
    then have w: "can_warn ev e" by (simp add: can_warn_def)
    show ?thesis
      by (rule exI[of _ "warn (scan_warning e) @ [EvSleep 5]"])
         (auto simp: cycle_events_def watch_cycle_warned[OF Inl w] scan warn_def log_def)
  next
    case (Some e')
    show ?thesis
      by (rule exI[of _ "[]"])
         (simp add: cycle_events_def watch_cycle_unwarned[OF Inl Some] scan)
  qed
qed

lemma cycle_history_eq:
  "cycle_history ev folder a h =
   (case listdir ev folder of Inl e \<Rightarrow> h
    | Inr names \<Rightarrow> fst (snd (scan_entries ev folder a names h)))"
proof -
  have "cycle_history ev folder a h = fst (snd (try_scan ev folder a h))"
    by (auto simp: cycle_history_def watch_cycle_def split: prod.splits sum.splits)
  then show ?thesis
    by (cases "listdir ev folder") (simp_all add: try_scan_listdir_raises try_scan_listed)
qed

lemma cycle_run_iff:
  "EvRun c \<in> set (cycle_events ev folder a h) \<longleftrightarrow>
   (\<exists>names. listdir ev folder = Inr names
        \<and> EvRun c \<in> set (snd (snd (scan_entries ev folder a names h))))"
proof -
  from cycle_shape[of ev folder a h] obtain tail where
    s: "cycle_events ev folder a h =
            EvListdir folder
            # (case listdir ev folder of Inl e \<Rightarrow> []
               | Inr names \<Rightarrow> snd (snd (scan_entries ev folder a names h)))
            @ tail" and t: "set tail \<subseteq> insert (EvSleep 5) (range EvLog)" by blast
  from t have "EvRun c \<notin> set tail" by auto
  then show ?thesis unfolding s by (cases "listdir ev folder") simp_all
qed

lemma cycle_stat_iff:
  "EvGetmtime q \<in> set (cycle_events ev folder a h) \<longleftrightarrow>
   (\<exists>names. listdir ev folder = Inr names
        \<and> EvGetmtime q \<in> set (snd (snd (scan_entries ev folder a names h))))"
proof -
  from cycle_shape[of ev folder a h] obtain tail where
    s: "cycle_events ev folder a h =
            EvListdir folder
            # (case listdir ev folder of Inl e \<Rightarrow> []
               | Inr names \<Rightarrow> snd (snd (scan_entries ev folder a names h)))
            @ tail" and t: "set tail \<subseteq> insert (EvSleep 5) (range EvLog)" by blast
  from t have "EvGetmtime q \<notin> set tail" by auto
  then show ?thesis unfolding s by (cases "listdir ev folder") simp_all
qed


lemma cycle_decide:
  assumes "observed p (cycle_events ev folder a h)" and "getmtime ev p = Inr m"
  shows "submitted p a (cycle_events ev folder a h)
         \<longleftrightarrow> should_print h p m \<and> can_announce ev p a"
proof -
  from assms(1) obtain names where n: "listdir ev folder = Inr names"
    and st: "EvGetmtime p \<in> set (snd (snd (scan_entries ev folder a names h)))"
    unfolding observed_def cycle_stat_iff by blast
  from scan_entries_decide[OF st assms(2)] n show ?thesis
    unfolding submitted_def cycle_run_iff by simp
qed

lemma cycle_keep:
  assumes "h p = Some t" and "\<And>m. getmtime ev p = Inr m \<Longrightarrow> m \<le> t"
  shows "\<not> submitted p a (cycle_events ev folder a h)"
    and "cycle_history ev folder a h p = Some t"
proof -
  note k = scan_entries_keep[where h=h and p=p and t=t and ev=ev and a=a and folder=folder, OF assms]
  show "\<not> submitted p a (cycle_events ev folder a h)"
    unfolding submitted_def cycle_run_iff using k by blast
  show "cycle_history ev folder a h p = Some t"
    unfolding cycle_history_eq using k assms(1) by (simp split: sum.splits)
qed

lemma cycle_mono:
  assumes "h q = Some t"
  shows "\<exists>t'. cycle_history ev folder a h q = Some t' \<and> t \<le> t'"
  unfolding cycle_history_eq using assms scan_entries_mono[of h q t ev folder a]
  by (auto split: sum.splits)



lemma cycle_hist_ok:
  assumes "submitted p a (cycle_events ev folder a h)"
    and "print_succeeds ev p a" and "getmtime ev p = Inr m"
  shows "cycle_history ev folder a h p = Some m"
proof -
  from assms(1) obtain names where n: "listdir ev folder = Inr names"
    and r: "EvRun (build_cmd p a) \<in> set (snd (snd (scan_entries ev folder a names h)))"
    unfolding submitted_def cycle_run_iff by blast
  from scan_entries_hist_ok[OF assms(2,3) r] n show ?thesis
    unfolding cycle_history_eq by simp
qed



subsection \<open>The loop\<close>

lemma watch_loop_Cons_ok:
  "fst (watch_cycle ev folder a h) = Inr () \<Longrightarrow>
   watch_loop (ev # envs) folder a h =
     (fst (watch_loop envs folder a (cycle_history ev folder a h)),
      fst (snd (watch_loop envs folder a (cycle_history ev folder a h))),
      cycle_events ev folder a h
      @ snd (snd (watch_loop envs folder a (cycle_history ev folder a h))))"
  by (cases "watch_cycle ev folder a h")
     (auto simp: cycle_history_def cycle_events_def split: prod.splits sum.splits)

lemma watch_loop_Cons_raise:
  "fst (watch_cycle ev folder a h) \<noteq> Inr () \<Longrightarrow>
   watch_loop (ev # envs) folder a h = watch_cycle ev folder a h"
  by (cases "watch_cycle ev folder a h") (auto split: prod.splits sum.splits)

declare watch_loop.simps(2) [simp del]

lemma loop_events_Cons:
  "loop_events (ev # envs) folder a h =
   cycle_events ev folder a h
   @ (if fst (watch_cycle ev folder a h) = Inr ()
      then loop_events envs folder a (cycle_history ev folder a h) else [])"
  by (simp add: loop_events_def watch_loop_Cons_ok watch_loop_Cons_raise cycle_events_def)

lemma loop_history_Cons:
  "loop_history (ev # envs) folder a h =
   (if fst (watch_cycle ev folder a h) = Inr ()
    then loop_history envs folder a (cycle_history ev folder a h)
    else cycle_history ev folder a h)"
  by (simp add: loop_history_def watch_loop_Cons_ok watch_loop_Cons_raise cycle_history_def)

lemma loop_events_Nil: "loop_events [] folder a h = []"
  by (simp add: loop_events_def)

lemma loop_history_Nil: "loop_history [] folder a h = h"
  by (simp add: loop_history_def)

lemma loop_keep:
  assumes "\<forall>ev\<in>set envs. \<forall>m. getmtime ev p = Inr m \<longrightarrow> m \<le> t"
  shows "h p = Some t \<Longrightarrow>
         \<not> submitted p a (loop_events envs folder a h) \<and> loop_history envs folder a h p = Some t"
  using assms
proof (induction envs arbitrary: h)
  case Nil
  then show ?case by (simp add: loop_events_Nil loop_history_Nil submitted_def)
next
  case (Cons ev envs)
  have le: "\<And>m. getmtime ev p = Inr m \<Longrightarrow> m \<le> t" using Cons.prems(2) by simp
  note k = cycle_keep[where h=h and p=p and t=t and ev=ev and a=a and folder=folder, OF Cons.prems(1) le]
  have "\<forall>ev\<in>set envs. \<forall>m. getmtime ev p = Inr m \<longrightarrow> m \<le> t" using Cons.prems(2) by simp
  from Cons.IH[of "cycle_history ev folder a h", OF k(2) this] k
  show ?case by (simp add: loop_events_Cons loop_history_Cons submitted_def)
qed

lemma loop_mono:
  "h q = Some t \<Longrightarrow> \<exists>t'. loop_history envs folder a h q = Some t' \<and> t \<le> t'"
proof (induction envs arbitrary: h t)
  case Nil
  then show ?case by (simp add: loop_history_Nil)
next
  case (Cons ev envs)
  from cycle_mono[of h q t ev folder a, OF Cons.prems] obtain t1 where
    t1: "cycle_history ev folder a h q = Some t1" "t \<le> t1" by blast
  from Cons.IH[of "cycle_history ev folder a h" t1, OF t1(1)] obtain t2 where
    "loop_history envs folder a (cycle_history ev folder a h) q = Some t2" "t1 \<le> t2" by blast
  with t1 show ?case by (auto simp: loop_history_Cons)
qed



subsection \<open>What a cycle opens\<close>

lemma open_read_events:
  "e \<in> set (snd (open_read fs path n)) \<Longrightarrow> e = EvOpen path \<or> e = EvRead path n"
  by (auto simp: open_read_def split: file_node.splits)

lemma is_pdf_opens:
  assumes "e \<in> set (snd (is_pdf fs path))"
  shows "endswith (py_lower path) ''.pdf'' \<and> (e = EvOpen path \<or> e = EvRead path 5)"
  using assms open_read_events[of e fs path 5]
  by (auto simp: is_pdf_def split: if_splits prod.splits sum.splits)

lemma scan_entry_opens:
  assumes "EvOpen q \<in> set (snd (snd (scan_entry ev folder a name h)))
           \<or> EvRead q n \<in> set (snd (snd (scan_entry ev folder a name h)))"
  shows "endswith (py_lower q) ''.pdf''"
  using assms is_pdf_opens[of "EvOpen q" "files ev" "os_path_join folder name"]
        is_pdf_opens[of "EvRead q n" "files ev" "os_path_join folder name"]
        print_pdf_no_open(1,2)
  by (auto simp: scan_entry_unfold Let_def split: sum.splits if_splits)

lemma scan_entries_opens:
  "EvOpen q \<in> set (snd (snd (scan_entries ev folder a names h)))
   \<or> EvRead q n \<in> set (snd (snd (scan_entries ev folder a names h)))
   \<Longrightarrow> endswith (py_lower q) ''.pdf''"
proof (induction names arbitrary: h)
  case Nil
  then show ?case by simp
next
  case (Cons name names)
  let ?r = "scan_entry ev folder a name h"
  show ?case
  proof (cases "fst ?r = Inr ()")
    case False
    with Cons.prems scan_entry_opens[of q ev folder a name h n] show ?thesis
      by (simp add: scan_entries_raise)
  next
    case True
    with Cons.prems scan_entry_opens[of q ev folder a name h n] Cons.IH[of "fst (snd ?r)"]
    show ?thesis by (auto simp: scan_entries_ok)
  qed
qed

lemma cycle_opens:
  assumes "EvOpen q \<in> set (cycle_events ev folder a h) \<or> EvRead q n \<in> set (cycle_events ev folder a h)"
  shows "endswith (py_lower q) ''.pdf''"
proof -
  from cycle_shape[of ev folder a h] obtain tail where
    s: "cycle_events ev folder a h =
            EvListdir folder
            # (case listdir ev folder of Inl e \<Rightarrow> []
               | Inr names \<Rightarrow> snd (snd (scan_entries ev folder a names h)))
            @ tail" and t: "set tail \<subseteq> insert (EvSleep 5) (range EvLog)" by blast
  from t have "EvOpen q \<notin> set tail" "EvRead q n \<notin> set tail" by auto
  with assms obtain names where "listdir ev folder = Inr names"
    and "EvOpen q \<in> set (snd (snd (scan_entries ev folder a names h)))
     \<or> EvRead q n \<in> set (snd (snd (scan_entries ev folder a names h)))"
    unfolding s by (cases "listdir ev folder") auto
  then show ?thesis using scan_entries_opens by blast
qed

subsection \<open>What a scan that raises nothing reaches\<close>

lemma scan_entry_observes:
  assumes "isfile ev (os_path_join folder name)"
    and "fst (is_pdf (files ev) (os_path_join folder name)) = Inr True"
  shows "EvGetmtime (os_path_join folder name) \<in> set (snd (snd (scan_entry ev folder a name h)))"
  using assms by (auto simp: scan_entry_unfold Let_def split: sum.splits)

lemma scan_entries_observes:
  "fst (scan_entries ev folder a names h) = Inr () \<Longrightarrow> name \<in> set names
   \<Longrightarrow> isfile ev (os_path_join folder name)
   \<Longrightarrow> fst (is_pdf (files ev) (os_path_join folder name)) = Inr True
   \<Longrightarrow> EvGetmtime (os_path_join folder name) \<in> set (snd (snd (scan_entries ev folder a names h)))"
proof (induction names arbitrary: h)
  case Nil
  then show ?case by simp
next
  case (Cons n names)
  let ?r = "scan_entry ev folder a n h"
  have ok: "fst ?r = Inr ()"
  proof (rule ccontr)
    assume "fst ?r \<noteq> Inr ()"
    with Cons.prems(1) show False by (simp add: scan_entries_raise)
  qed
  show ?case
  proof (cases "name = n")
    case True
    with scan_entry_observes[OF Cons.prems(3,4), of a h] ok show ?thesis
      by (simp add: scan_entries_ok)
  next
    case False
    with Cons.prems(2) have mem: "name \<in> set names" by simp
    from Cons.prems(1) ok
    have "fst (scan_entries ev folder a names (fst (snd ?r))) = Inr ()"
      by (simp add: scan_entries_ok)
    from Cons.IH[OF this mem Cons.prems(3,4)] ok show ?thesis
      by (simp add: scan_entries_ok)
  qed
qed

lemma complete_scan_observes:
  assumes "fst (try_scan ev folder a h) = Inr ()" and "listdir ev folder = Inr names"
    and "name \<in> set names" and "isfile ev (os_path_join folder name)"
    and "fst (is_pdf (files ev) (os_path_join folder name)) = Inr True"
  shows "observed (os_path_join folder name) (cycle_events ev folder a h)"
proof -
  from assms(1,2) have "fst (scan_entries ev folder a names h) = Inr ()"
    by (simp add: try_scan_listed)
  from scan_entries_observes[OF this assms(3,4,5)] assms(2) show ?thesis
    unfolding observed_def cycle_stat_iff by simp
qed

subsection \<open>A raise ends the scan\<close>

lemma scan_entries_append:
  "scan_entries ev folder a (pre @ rest) h =
     (if fst (scan_entries ev folder a pre h) = Inr ()
      then (fst (scan_entries ev folder a rest (fst (snd (scan_entries ev folder a pre h)))),
            fst (snd (scan_entries ev folder a rest (fst (snd (scan_entries ev folder a pre h))))),
            snd (snd (scan_entries ev folder a pre h))
            @ snd (snd (scan_entries ev folder a rest (fst (snd (scan_entries ev folder a pre h))))))
      else scan_entries ev folder a pre h)"
proof (induction pre arbitrary: h)
  case Nil
  show ?case by simp
next
  case (Cons name pre)
  show ?case
  proof (cases "fst (scan_entry ev folder a name h) = Inr ()")
    case True
    with Cons.IH[of "fst (snd (scan_entry ev folder a name h))"] show ?thesis
      by (simp add: scan_entries_ok)
  next
    case False
    then show ?thesis by (simp add: scan_entries_raise)
  qed
qed

lemma scan_entries_abandon:
  assumes "fst (scan_entries ev folder a pre h) = Inr ()"
    and "fst (scan_entry ev folder a name (fst (snd (scan_entries ev folder a pre h)))) = Inl e"
  shows "scan_entries ev folder a (pre @ name # post) h =
           (Inl e, fst (snd (scan_entries ev folder a pre h)),
            snd (snd (scan_entries ev folder a pre h))
            @ snd (snd (scan_entry ev folder a name (fst (snd (scan_entries ev folder a pre h))))))"
proof -
  let ?h = "fst (snd (scan_entries ev folder a pre h))"
  have ne: "fst (scan_entry ev folder a name ?h) \<noteq> Inr ()" using assms(2) by simp
  have "scan_entries ev folder a (name # post) ?h = scan_entry ev folder a name ?h"
    using ne by (rule scan_entries_raise)
  moreover have "fst (snd (scan_entry ev folder a name ?h)) = ?h"
    using assms(2) by (rule scan_entry_hist_raise)
  ultimately show ?thesis using assms by (simp add: scan_entries_append)
qed

subsection \<open>Sleeping and listing\<close>

lemma is_pdf_no_sleep: "EvSleep k \<notin> set (snd (is_pdf fs path))"
  and is_pdf_no_listdir: "EvListdir d \<notin> set (snd (is_pdf fs path))"
  using is_pdf_opens[of "EvSleep k" fs path] is_pdf_opens[of "EvListdir d" fs path] by auto

lemma scan_entry_quiet:
  "EvSleep k \<notin> set (snd (snd (scan_entry ev folder a name h)))
   \<and> EvListdir d \<notin> set (snd (snd (scan_entry ev folder a name h)))"
  using is_pdf_no_sleep[of k "files ev" "os_path_join folder name"]
        is_pdf_no_listdir[of d "files ev" "os_path_join folder name"]
        print_pdf_no_open(3)[of k "stdout ev" "run ev" "os_path_join folder name" a]
        print_pdf_no_open(4)[of d "stdout ev" "run ev" "os_path_join folder name" a]
  by (auto simp: scan_entry_unfold Let_def split: sum.splits if_splits)

lemma scan_entries_quiet:
  "EvSleep k \<notin> set (snd (snd (scan_entries ev folder a names h)))
   \<and> EvListdir d \<notin> set (snd (snd (scan_entries ev folder a names h)))"
proof (induction names arbitrary: h)
  case Nil
  show ?case by simp
next
  case (Cons name names)
  let ?r = "scan_entry ev folder a name h"
  show ?case
  proof (cases "fst ?r = Inr ()")
    case True
    with scan_entry_quiet[of k ev folder a name h d] Cons.IH[of "fst (snd ?r)"]
    show ?thesis by (simp add: scan_entries_ok)
  next
    case False
    with scan_entry_quiet[of k ev folder a name h d] show ?thesis
      by (simp add: scan_entries_raise)
  qed
qed

lemma cycle_sleeps_once:
  assumes "fst (watch_cycle ev folder a h) = Inr ()"
  shows "count_list (cycle_events ev folder a h) (EvSleep 5) = 1"
proof -
  from cycle_shape[of ev folder a h] assms obtain tail where
    s: "cycle_events ev folder a h =
            EvListdir folder
            # (case listdir ev folder of Inl e \<Rightarrow> []
               | Inr names \<Rightarrow> snd (snd (scan_entries ev folder a names h)))
            @ tail" and t: "count_list tail (EvSleep 5) = 1" by blast
  have "count_list (case listdir ev folder of Inl e \<Rightarrow> []
               | Inr names \<Rightarrow> snd (snd (scan_entries ev folder a names h))) (EvSleep 5) = 0"
    using scan_entries_quiet[of 5 ev folder a _ h]
    by (cases "listdir ev folder") (simp_all add: count_list_0_iff)
  with t show ?thesis unfolding s by simp
qed

lemma cycle_lists_once:
  "count_list (cycle_events ev folder a h) (EvListdir folder) = 1"
proof -
  from cycle_shape[of ev folder a h] obtain tail where
    s: "cycle_events ev folder a h =
            EvListdir folder
            # (case listdir ev folder of Inl e \<Rightarrow> []
               | Inr names \<Rightarrow> snd (snd (scan_entries ev folder a names h)))
            @ tail" and t: "set tail \<subseteq> insert (EvSleep 5) (range EvLog)" by blast
  from t have "EvListdir folder \<notin> set tail" by auto
  then have t0: "count_list tail (EvListdir folder) = 0" by (simp add: count_list_0_iff)
  have "count_list (case listdir ev folder of Inl e \<Rightarrow> []
               | Inr names \<Rightarrow> snd (snd (scan_entries ev folder a names h))) (EvListdir folder) = 0"
    using scan_entries_quiet[of _ ev folder a _ h folder]
    by (cases "listdir ev folder") (simp_all add: count_list_0_iff)
  with t0 show ?thesis unfolding s by simp
qed

lemma cycle_absorbs:
  assumes "\<forall>e. can_warn ev e"
  shows "fst (watch_cycle ev folder a h) = Inr ()"
proof (cases "fst (try_scan ev folder a h)")
  case (Inr u)
  then have "fst (try_scan ev folder a h) = Inr ()" by simp
  then show ?thesis by (simp add: watch_cycle_ok)
next
  case (Inl e)
  from watch_cycle_warned[OF this] assms show ?thesis by simp
qed

lemma loop_runs:
  assumes "\<forall>ev\<in>set envs. \<forall>e. can_warn ev e"
  shows "fst (watch_loop envs folder a h) = Inr ()
   \<and> count_list (loop_events envs folder a h) (EvSleep 5) = length envs
   \<and> count_list (loop_events envs folder a h) (EvListdir folder) = length envs"
  using assms
proof (induction envs arbitrary: h)
  case Nil
  show ?case by (simp add: loop_events_Nil)
next
  case (Cons ev envs)
  from Cons.prems have w: "\<forall>e. can_warn ev e"
    and rest: "\<forall>ev\<in>set envs. \<forall>e. can_warn ev e" by simp_all
  have ok: "fst (watch_cycle ev folder a h) = Inr ()" using w by (rule cycle_absorbs)
  from Cons.IH[OF rest, of "cycle_history ev folder a h"] ok
       cycle_sleeps_once[OF ok] cycle_lists_once[of ev folder a h]
  show ?case by (simp add: loop_events_Cons watch_loop_Cons_ok)
qed

text \<open>When the warning of line 149 cannot be written, its exception leaves the loop: the
  cycle does not sleep and no later cycle runs.\<close>

lemma unwarned_scan_error_ends_loop:
  assumes "fst (try_scan ev folder a h) = Inl e"
    and "stdout ev (''WARNING: '' @ scan_warning e) = Some e'"
  shows "watch_loop (ev # envs) folder a h =
           (Inl e', fst (snd (try_scan ev folder a h)), snd (snd (try_scan ev folder a h)))"
proof -
  note w = watch_cycle_unwarned[OF assms]
  then have "fst (watch_cycle ev folder a h) \<noteq> Inr ()" by simp
  from watch_loop_Cons_raise[OF this] w show ?thesis by simp
qed

subsection \<open>The validation loops\<close>

lemma warnings_append: "warnings (xs @ ys) = warnings xs + warnings ys"
  by (simp add: warnings_def)

lemma warnings_warn: "warnings (warn msg) = 1"
  by (simp add: warnings_def warn_def log_def startswith_def)

lemma warnings_prompt: "warnings (EvPrompt s # evs) = warnings evs"
  by (simp add: warnings_def)

lemma warnings_Nil: "warnings [] = 0"
  by (simp add: warnings_def)

lemma warnings_menu: "warnings duplex_menu = 0"
  by (simp add: warnings_def duplex_menu_def duplex_modes_def)

lemma ask_copies_result:
  "fst (ask_copies stdin) = Inr n \<Longrightarrow>
   \<exists>bad ans. stdin = bad @ ans # fst (snd (ask_copies stdin))
     \<and> (\<forall>b\<in>set bad. copies_rejects b) \<and> copies_accepts ans n
     \<and> warnings (snd (snd (ask_copies stdin))) = length bad"
proof (induction stdin)
  case Nil
  then show ?case by simp
next
  case (Cons line rest)
  show ?case
  proof (cases "copies_rejects line")
    case True
    then have step: "ask_copies (line # rest) =
        (fst (ask_copies rest), fst (snd (ask_copies rest)),
         EvPrompt copies_prompt # warn copies_warning @ snd (snd (ask_copies rest)))"
      by (auto simp: copies_rejects_def Let_def split: sum.splits prod.splits)
    with Cons.prems have "fst (ask_copies rest) = Inr n" by simp
    from Cons.IH[OF this] obtain bad ans where
      r: "rest = bad @ ans # fst (snd (ask_copies rest))"
      and b: "\<forall>b\<in>set bad. copies_rejects b" and a: "copies_accepts ans n"
      and w: "warnings (snd (snd (ask_copies rest))) = length bad" by blast
    have 1: "line # rest = (line # bad) @ ans # fst (snd (ask_copies (line # rest)))"
      using r step by simp
    have 2: "\<forall>b\<in>set (line # bad). copies_rejects b" using b True by simp
    have 3: "warnings (snd (snd (ask_copies (line # rest)))) = length (line # bad)"
      using w step by (simp add: warnings_prompt warnings_append warnings_warn)
    from 1 2 a 3 show ?thesis by blast
  next
    case False
    with Cons.prems have acc: "copies_accepts line n"
      and rest: "fst (snd (ask_copies (line # rest))) = rest"
      and evs: "snd (snd (ask_copies (line # rest))) = [EvPrompt copies_prompt]"
      by (auto simp: copies_rejects_def copies_accepts_def Let_def
               split: sum.splits if_splits prod.splits)
    have "line # rest = [] @ line # fst (snd (ask_copies (line # rest)))" using rest by simp
    moreover have "warnings (snd (snd (ask_copies (line # rest)))) = length ([] :: string list)"
      using evs by (simp add: warnings_def)
    ultimately show ?thesis using acc
      by (intro exI[of _ "[]"] exI[of _ line]) simp
  qed
qed

lemma ask_duplex_result:
  "fst (ask_duplex stdin) = Inr d \<Longrightarrow>
   \<exists>bad ans. stdin = bad @ ans # fst (snd (ask_duplex stdin))
     \<and> (\<forall>b\<in>set bad. duplex_rejects b) \<and> duplex_accepts ans d
     \<and> warnings (snd (snd (ask_duplex stdin))) = length bad"
proof (induction stdin)
  case Nil
  then show ?case by simp
next
  case (Cons line rest)
  show ?case
  proof (cases "duplex_rejects line")
    case True
    then have step: "ask_duplex (line # rest) =
        (fst (ask_duplex rest), fst (snd (ask_duplex rest)),
         EvPrompt duplex_prompt # warn duplex_warning @ snd (snd (ask_duplex rest)))"
      by (auto simp: duplex_rejects_def duplex_modes_def Let_def split: sum.splits prod.splits)
    with Cons.prems have "fst (ask_duplex rest) = Inr d" by simp
    from Cons.IH[OF this] obtain bad ans where
      r: "rest = bad @ ans # fst (snd (ask_duplex rest))"
      and b: "\<forall>b\<in>set bad. duplex_rejects b" and a: "duplex_accepts ans d"
      and w: "warnings (snd (snd (ask_duplex rest))) = length bad" by blast
    have 1: "line # rest = (line # bad) @ ans # fst (snd (ask_duplex (line # rest)))"
      using r step by simp
    have 2: "\<forall>b\<in>set (line # bad). duplex_rejects b" using b True by simp
    have 3: "warnings (snd (snd (ask_duplex (line # rest)))) = length (line # bad)"
      using w step by (simp add: warnings_prompt warnings_append warnings_warn)
    from 1 2 a 3 show ?thesis by blast
  next
    case False
    with Cons.prems have acc: "duplex_accepts line d"
      and rest: "fst (snd (ask_duplex (line # rest))) = rest"
      and evs: "snd (snd (ask_duplex (line # rest))) = [EvPrompt duplex_prompt]"
      by (auto simp: duplex_rejects_def duplex_accepts_def duplex_modes_def Let_def
               split: sum.splits if_splits prod.splits)
    have "line # rest = [] @ line # fst (snd (ask_duplex (line # rest)))" using rest by simp
    moreover have "warnings (snd (snd (ask_duplex (line # rest)))) = length ([] :: string list)"
      using evs by (simp add: warnings_def)
    ultimately show ?thesis using acc
      by (intro exI[of _ "[]"] exI[of _ line]) simp
  qed
qed

lemma copies_accepts_pos: "copies_accepts line n \<Longrightarrow> 0 < n"
  by (auto simp: copies_accepts_def split: if_splits)

lemma duplex_accepts_mode:
  assumes "duplex_accepts line d"
  shows "d = None \<or> d \<in> Some ` set duplex_modes"
proof (cases "py_strip line = []")
  case True
  with assms show ?thesis by (simp add: duplex_accepts_def)
next
  case False
  with assms obtain n where n: "1 \<le> n" "n \<le> 3" and d: "d = Some (duplex_modes ! nat (n - 1))"
    by (auto simp: duplex_accepts_def split: sum.splits)
  from n have "nat (n - 1) < length duplex_modes" by (simp add: duplex_modes_def)
  then have "duplex_modes ! nat (n - 1) \<in> set duplex_modes" by (rule nth_mem)
  with d show ?thesis by simp
qed

text \<open>What a run of \<open>get_print_options\<close> that returns has read.\<close>

lemma get_print_options_unfold:
  assumes "fst (get_print_options stdin) = Inr res"
  obtains l1 s1 n s2 d l4 l5 s5 ev2 ev3 where
    "stdin = l1 # s1" and "ask_copies s1 = (Inr n, s2, ev2)"
    and "ask_duplex s2 = (Inr d, l4 # l5 # s5, ev3)"
    and "get_print_options stdin =
      (Inr (py_strip l1, n, d, py_lower (py_strip l4) = ''y'',
            if py_strip l5 = [] then None else Some (py_strip l5)),
       s5, [EvPrompt pages_prompt] @ ev2 @ duplex_menu @ ev3
           @ [EvPrompt fit_prompt] @ [EvPrompt media_prompt])"
proof -
  obtain l1 s1 where st: "stdin = l1 # s1"
    using assms by (cases stdin) (simp_all add: get_print_options_def input_line_def)
  obtain r2 s2 ev2 where c: "ask_copies s1 = (r2, s2, ev2)"
    by (cases "ask_copies s1") blast
  obtain n where n: "r2 = Inr n"
    using assms by (cases r2) (simp_all add: get_print_options_def input_line_def st c)
  obtain r3 s3 ev3 where dd: "ask_duplex s2 = (r3, s3, ev3)"
    by (cases "ask_duplex s2") blast
  obtain d where d: "r3 = Inr d"
    using assms by (cases r3) (simp_all add: get_print_options_def input_line_def st c n dd)
  obtain l4 s4 where s3: "s3 = l4 # s4"
    using assms by (cases s3) (simp_all add: get_print_options_def input_line_def st c n dd d)
  obtain l5 s5 where s4: "s4 = l5 # s5"
    using assms by (cases s4) (simp_all add: get_print_options_def input_line_def st c n dd d s3)
  have g: "get_print_options stdin =
      (Inr (py_strip l1, n, d, py_lower (py_strip l4) = ''y'',
            if py_strip l5 = [] then None else Some (py_strip l5)),
       s5, [EvPrompt pages_prompt] @ ev2 @ duplex_menu @ ev3
           @ [EvPrompt fit_prompt] @ [EvPrompt media_prompt])"
    by (simp add: get_print_options_def input_line_def st c n dd d s3 s4)
  have c': "ask_copies s1 = (Inr n, s2, ev2)" using c n by simp
  have d': "ask_duplex s2 = (Inr d, l4 # l5 # s5, ev3)" using dd d s3 s4 by simp
  show thesis using st c' d' g by (rule that)
qed

text \<open>
  An answer made of superscript digits passes \<^verbatim>\<open>str.isdigit\<close>, so the guard of line
  64 calls \<^verbatim>\<open>int\<close> on it, and the \<^verbatim>\<open>ValueError\<close> leaves the function: such an
  answer gets neither a warning nor a new prompt.
\<close>

lemma copies_superscript_raises:
  "fst (ask_copies [[CHR 0xB2], ''2'']) =
     Inl (Exc ValueError
            (''invalid literal for int() with base 10: '' @ [CHR 0x27, CHR 0xB2, CHR 0x27]))"
  by code_simp

section \<open>The claims of the specification\<close>

subsection \<open>C1\<close>

text \<open>
  Claim C1, for the files the scan reaches.  In every cycle of the watch loop, a file
  whose modification time \<open>m\<close> the scan reads in that cycle (line 143: it is in the
  listing, it is a regular file, it passes the sniffer, and no earlier entry of the
  listing made the scan raise) is submitted for printing in that cycle only if its path
  is absent from the print history at the start of the cycle or the stored time is
  strictly less than \<open>m\<close>; and if the path is absent or the stored time is strictly
  less than \<open>m\<close>, the file is submitted in that cycle, provided standard output takes
  the line that announces the command (line 113).  A scan that raises nothing reaches
  every listed regular file that passes the sniffer.
\<close>

theorem submit_decision:
  "(observed p (cycle_events ev folder a h) \<longrightarrow> getmtime ev p = Inr m \<longrightarrow>
      (submitted p a (cycle_events ev folder a h)
         \<longrightarrow> h p = None \<or> (\<exists>t. h p = Some t \<and> t < m))
      \<and> (h p = None \<or> (\<exists>t. h p = Some t \<and> t < m) \<longrightarrow> can_announce ev p a
         \<longrightarrow> submitted p a (cycle_events ev folder a h)))
   \<and> (fst (try_scan ev folder a h) = Inr () \<longrightarrow> listdir ev folder = Inr names
      \<longrightarrow> name \<in> set names \<longrightarrow> isfile ev (os_path_join folder name)
      \<longrightarrow> fst (is_pdf (files ev) (os_path_join folder name)) = Inr True
      \<longrightarrow> observed (os_path_join folder name) (cycle_events ev folder a h))"
proof (rule conjI; intro impI)
  assume o: "observed p (cycle_events ev folder a h)" and g: "getmtime ev p = Inr m"
  from cycle_decide[OF o g]
  show "(submitted p a (cycle_events ev folder a h)
         \<longrightarrow> h p = None \<or> (\<exists>t. h p = Some t \<and> t < m))
      \<and> (h p = None \<or> (\<exists>t. h p = Some t \<and> t < m) \<longrightarrow> can_announce ev p a
         \<longrightarrow> submitted p a (cycle_events ev folder a h))"
    by (simp add: should_print_iff)
next
  assume "fst (try_scan ev folder a h) = Inr ()" "listdir ev folder = Inr names"
    "name \<in> set names" "isfile ev (os_path_join folder name)"
    "fst (is_pdf (files ev) (os_path_join folder name)) = Inr True"
  then show "observed (os_path_join folder name) (cycle_events ev folder a h)"
    by (rule complete_scan_observes)
qed

text \<open>An instance: \<^verbatim>\<open>a.pdf\<close> was printed at time 3 and now has time 7; the scan
  raises nothing and reaches it.\<close>

theorem submit_decision_witness:
  "observed ''/watch/a.pdf''
     (cycle_events (scenario (Inr [''a.pdf'', ''b.txt'']) (\<lambda>p. Inr 7) 0) ''/watch'' plain_args
        [''/watch/a.pdf'' \<mapsto> 3])
   \<and> getmtime (scenario (Inr [''a.pdf'', ''b.txt'']) (\<lambda>p. Inr 7) 0) ''/watch/a.pdf'' = Inr 7
   \<and> (\<exists>t. [''/watch/a.pdf'' \<mapsto> 3::nat] ''/watch/a.pdf'' = Some t \<and> t < 7)
   \<and> can_announce (scenario (Inr [''a.pdf'', ''b.txt'']) (\<lambda>p. Inr 7) 0) ''/watch/a.pdf''
        plain_args
   \<and> submitted ''/watch/a.pdf'' plain_args
       (cycle_events (scenario (Inr [''a.pdf'', ''b.txt'']) (\<lambda>p. Inr 7) 0) ''/watch'' plain_args
          [''/watch/a.pdf'' \<mapsto> 3])
   \<and> fst (try_scan (scenario (Inr [''a.pdf'', ''b.txt'']) (\<lambda>p. Inr 7) 0) ''/watch'' plain_args
          [''/watch/a.pdf'' \<mapsto> 3]) = Inr ()
   \<and> ''a.pdf'' \<in> set [''a.pdf'', ''b.txt'']
   \<and> observed (os_path_join ''/watch'' ''a.pdf'')
       (cycle_events (scenario (Inr [''a.pdf'', ''b.txt'']) (\<lambda>p. Inr 7) 0) ''/watch'' plain_args
          [''/watch/a.pdf'' \<mapsto> 3])"
proof -
  let ?ev = "scenario (Inr [''a.pdf'', ''b.txt'']) (\<lambda>p. Inr 7) 0"
  let ?h = "[''/watch/a.pdf'' \<mapsto> 3::nat]"
  note th = submit_decision[where p="''/watch/a.pdf''" and ev="?ev" and folder="''/watch''"
      and a=plain_args and h="?h" and m=7 and names="[''a.pdf'', ''b.txt'']" and name="''a.pdf''"]
  have o: "observed ''/watch/a.pdf'' (cycle_events ?ev ''/watch'' plain_args ?h)"
    by code_simp
  have g: "getmtime ?ev ''/watch/a.pdf'' = Inr 7" by (simp add: scenario_def)
  have d: "\<exists>t. ?h ''/watch/a.pdf'' = Some t \<and> t < 7" by simp
  have c: "can_announce ?ev ''/watch/a.pdf'' plain_args"
    by (simp add: can_announce_def scenario_def)
  from th o g d c
  have s: "submitted ''/watch/a.pdf'' plain_args (cycle_events ?ev ''/watch'' plain_args ?h)"
    by blast
  have t: "fst (try_scan ?ev ''/watch'' plain_args ?h) = Inr ()" by code_simp
  have l: "listdir ?ev ''/watch'' = Inr [''a.pdf'', ''b.txt'']" by (simp add: scenario_def)
  have n: "''a.pdf'' \<in> set [''a.pdf'', ''b.txt'']" by simp
  have f: "isfile ?ev (os_path_join ''/watch'' ''a.pdf'')" by (simp add: scenario_def)
  have q: "fst (is_pdf (files ?ev) (os_path_join ''/watch'' ''a.pdf'')) = Inr True"
    by code_simp
  from th t l n f q
  have o2: "observed (os_path_join ''/watch'' ''a.pdf'')
              (cycle_events ?ev ''/watch'' plain_args ?h)" by blast
  from o g d c s t n o2 show ?thesis by (intro conjI)
qed

text \<open>
  Without the restriction to the files the scan reaches the claim fails: when reading the
  modification time of \<^verbatim>\<open>a.pdf\<close> raises, the \<^verbatim>\<open>for\<close> loop is left, and
  \<^verbatim>\<open>b.pdf\<close>, a listed regular file that passes the sniffer and is absent from the
  history, is not submitted in that cycle.
\<close>

theorem submit_decision_counterexample:
  "''b.pdf'' \<in> set [''a.pdf'', ''b.pdf'']
   \<and> isfile (scenario (Inr [''a.pdf'', ''b.pdf''])
        (\<lambda>p. if p = ''/watch/a.pdf'' then Inl gone else Inr 5) 0) ''/watch/b.pdf''
   \<and> fst (is_pdf (files (scenario (Inr [''a.pdf'', ''b.pdf''])
        (\<lambda>p. if p = ''/watch/a.pdf'' then Inl gone else Inr 5) 0)) ''/watch/b.pdf'') = Inr True
   \<and> getmtime (scenario (Inr [''a.pdf'', ''b.pdf''])
        (\<lambda>p. if p = ''/watch/a.pdf'' then Inl gone else Inr 5) 0) ''/watch/b.pdf'' = Inr 5
   \<and> (Map.empty :: string \<rightharpoonup> nat) ''/watch/b.pdf'' = None
   \<and> \<not> submitted ''/watch/b.pdf'' plain_args
         (cycle_events (scenario (Inr [''a.pdf'', ''b.pdf''])
            (\<lambda>p. if p = ''/watch/a.pdf'' then Inl gone else Inr 5) 0)
            ''/watch'' plain_args Map.empty)"
  by code_simp

subsection \<open>C2\<close>




subsection \<open>C3\<close>

text \<open>
  Claim C3.  When a cycle submits a file with modification time \<open>m\<close> and the print
  invoker reports success, no later cycle in which the modification time still reads
  \<open>m\<close> submits the file again.
\<close>

theorem no_resubmit_after_success:
  assumes "submitted p a (cycle_events ev1 folder a h)" and "print_succeeds ev1 p a"
    and "getmtime ev1 p = Inr m" and "\<forall>ev\<in>set envs. getmtime ev p = Inr m"
  shows "\<not> submitted p a (loop_events envs folder a (cycle_history ev1 folder a h))"
proof -
  have h1: "cycle_history ev1 folder a h p = Some m"
    using assms(1,2,3) by (rule cycle_hist_ok)
  have "\<forall>ev\<in>set envs. \<forall>m'. getmtime ev p = Inr m' \<longrightarrow> m' \<le> m"
    using assms(4) by simp
  from loop_keep[where h="cycle_history ev1 folder a h" and p=p and t=m and envs=envs, OF this h1]
  show ?thesis by blast
qed

text \<open>An instance: two cycles over the same folder.\<close>

theorem no_resubmit_after_success_witness:
  "submitted ''/watch/a.pdf'' plain_args
     (cycle_events (scenario (Inr [''a.pdf'', ''b.txt'']) (\<lambda>p. Inr 7) 0) ''/watch'' plain_args
        Map.empty)
   \<and> print_succeeds (scenario (Inr [''a.pdf'', ''b.txt'']) (\<lambda>p. Inr 7) 0) ''/watch/a.pdf''
        plain_args
   \<and> getmtime (scenario (Inr [''a.pdf'', ''b.txt'']) (\<lambda>p. Inr 7) 0) ''/watch/a.pdf'' = Inr 7
   \<and> \<not> submitted ''/watch/a.pdf'' plain_args
       (loop_events [scenario (Inr [''a.pdf'', ''b.txt'']) (\<lambda>p. Inr 7) 0] ''/watch'' plain_args
          (cycle_history (scenario (Inr [''a.pdf'', ''b.txt'']) (\<lambda>p. Inr 7) 0) ''/watch''
             plain_args Map.empty))"
proof -
  let ?ev = "scenario (Inr [''a.pdf'', ''b.txt'']) (\<lambda>p. Inr 7) 0"
  have s: "submitted ''/watch/a.pdf'' plain_args
     (cycle_events ?ev ''/watch'' plain_args Map.empty)" by code_simp
  have ok: "print_succeeds ?ev ''/watch/a.pdf'' plain_args" by code_simp
  have g: "getmtime ?ev ''/watch/a.pdf'' = Inr 7" by (simp add: scenario_def)
  have all: "\<forall>ev\<in>set [?ev]. getmtime ev ''/watch/a.pdf'' = Inr 7" using g by simp
  from no_resubmit_after_success[OF s ok g all] s ok g show ?thesis by blast
qed

subsection \<open>C4\<close>




subsection \<open>C5\<close>

text \<open>
  Claim C5.  For a path that ends in \<^verbatim>\<open>.pdf\<close>, whatever the case of the letters,
  \<open>is_pdf\<close> returns true when the first five bytes of the file are \<^verbatim>\<open>%PDF-\<close>, and
  false when they differ, when the file is empty and when opening or reading it raises.
  For no path at all does \<open>is_pdf\<close> raise: its result is always a value.
\<close>

theorem is_pdf_magic:
  "(\<exists>b. fst (is_pdf fs p) = Inr b) \<and>
   (endswith (py_lower p) ''.pdf'' \<longrightarrow>
      (\<forall>bs. fs p = Content bs \<longrightarrow> fst (is_pdf fs p) = Inr (take 5 bs = PDF_MAGIC)) \<and>
      (fs p = Content [] \<longrightarrow> fst (is_pdf fs p) = Inr False) \<and>
      (\<forall>e. fs p = OpenRaises e \<or> fs p = ReadRaises e \<longrightarrow> fst (is_pdf fs p) = Inr False))"
  by (auto simp: is_pdf_def open_read_def PDF_MAGIC_def split: file_node.splits)

text \<open>An instance: an upper-case suffix, with four different files behind the path.\<close>

theorem is_pdf_magic_witness:
  "endswith (py_lower ''/watch/Report.PDF'') ''.pdf'' \<and>
   fst (is_pdf (\<lambda>p. Content ''%PDF-1.7 body'') ''/watch/Report.PDF'') = Inr True \<and>
   fst (is_pdf (\<lambda>p. Content ''<html>'') ''/watch/Report.PDF'') = Inr False \<and>
   fst (is_pdf (\<lambda>p. Content []) ''/watch/Report.PDF'') = Inr False \<and>
   fst (is_pdf (\<lambda>p. OpenRaises gone) ''/watch/Report.PDF'') = Inr False"
proof -
  have suf: "endswith (py_lower ''/watch/Report.PDF'') ''.pdf''" by code_simp
  have m1: "take 5 ''%PDF-1.7 body'' = PDF_MAGIC" by code_simp
  have m2: "take 5 ''<html>'' \<noteq> PDF_MAGIC" by code_simp
  from is_pdf_magic[of "\<lambda>p. Content ''%PDF-1.7 body''" "''/watch/Report.PDF''"] suf m1
  have a: "fst (is_pdf (\<lambda>p. Content ''%PDF-1.7 body'') ''/watch/Report.PDF'') = Inr True" by simp
  from is_pdf_magic[of "\<lambda>p. Content ''<html>''" "''/watch/Report.PDF''"] suf m2
  have b: "fst (is_pdf (\<lambda>p. Content ''<html>'') ''/watch/Report.PDF'') = Inr False" by simp
  from is_pdf_magic[of "\<lambda>p. Content []" "''/watch/Report.PDF''"] suf
  have c: "fst (is_pdf (\<lambda>p. Content []) ''/watch/Report.PDF'') = Inr False" by blast
  from is_pdf_magic[of "\<lambda>p. OpenRaises gone" "''/watch/Report.PDF''"] suf
  have d: "fst (is_pdf (\<lambda>p. OpenRaises gone) ''/watch/Report.PDF'') = Inr False" by simp
  from suf a b c d show ?thesis by blast
qed

subsection \<open>C6\<close>

text \<open>
  Claim C6.  For a path that does not end in \<^verbatim>\<open>.pdf\<close>, whatever the case of the
  letters, \<open>is_pdf\<close> returns false whatever the file holds, and causes no event: the
  file is neither opened nor read.  No cycle of the watch loop opens or reads such a
  path either.
\<close>

theorem is_pdf_other_suffix:
  "\<not> endswith (py_lower p) ''.pdf'' \<longrightarrow>
     is_pdf fs p = (Inr False, []) \<and>
     EvOpen p \<notin> set (cycle_events ev folder a h) \<and>
     (\<forall>n. EvRead p n \<notin> set (cycle_events ev folder a h))"
  using cycle_opens[of p ev folder a h] by (auto simp: is_pdf_def)

text \<open>An instance: the text file of a folder that also holds a PDF.\<close>

theorem is_pdf_other_suffix_witness:
  "\<not> endswith (py_lower ''/watch/b.txt'') ''.pdf'' \<and>
   is_pdf (\<lambda>p. Content ''%PDF-1.7'') ''/watch/b.txt'' = (Inr False, []) \<and>
   EvOpen ''/watch/b.txt''
     \<notin> set (cycle_events (scenario (Inr [''a.pdf'', ''b.txt'']) (\<lambda>p. Inr 7) 0)
              ''/watch'' plain_args Map.empty)"
proof -
  have suf: "\<not> endswith (py_lower ''/watch/b.txt'') ''.pdf''" by code_simp
  from is_pdf_other_suffix[of "''/watch/b.txt''" "\<lambda>p. Content ''%PDF-1.7''"
      "scenario (Inr [''a.pdf'', ''b.txt'']) (\<lambda>p. Inr 7) 0" "''/watch''" plain_args Map.empty] suf
  show ?thesis by blast
qed

subsection \<open>C7\<close>

text \<open>
  Claim C7.  The commands that a call of \<open>print_pdf\<close> hands to \<^verbatim>\<open>subprocess.run\<close>
  are the one command it built, or none when the announcement of line 113 raises.  That
  command is \<^verbatim>\<open>lp -d\<close> and the printer name, then \<^verbatim>\<open>-n\<close> and the copy count
  exactly when the count is neither 0 nor 1, then \<^verbatim>\<open>-P\<close> and the page range exactly
  when it is not empty, then the \<^verbatim>\<open>sides=\<close> option exactly when a duplex mode is
  given, then \<^verbatim>\<open>fit-to-page\<close> exactly when fit is true, then the \<^verbatim>\<open>media=\<close>
  option exactly when a paper size is given, and the file path as the last argument.
\<close>

theorem invoker_command:
  "commands_run (snd (print_pdf out r path a))
     = (if out (announce_line path a) = None then [build_cmd path a] else [])
   \<and> build_cmd path a =
       [''lp'', ''-d'', printer a]
       @ (if copies a \<noteq> 0 \<and> copies a \<noteq> 1 then [''-n'', py_str_int (copies a)] else [])
       @ (if pages a \<noteq> [] then [''-P'', pages a] else [])
       @ (if truthy (duplex a) then [''-o'', ''sides='' @ the (duplex a)] else [])
       @ (if fit a then [''-o'', ''fit-to-page''] else [])
       @ (if truthy (media a) then [''-o'', ''media='' @ the (media a)] else [])
       @ [path]
   \<and> last (build_cmd path a) = path"
proof (intro conjI)
  show "commands_run (snd (print_pdf out r path a))
     = (if out (announce_line path a) = None then [build_cmd path a] else [])"
    by (rule print_pdf_commands)
  show "build_cmd path a =
       [''lp'', ''-d'', printer a]
       @ (if copies a \<noteq> 0 \<and> copies a \<noteq> 1 then [''-n'', py_str_int (copies a)] else [])
       @ (if pages a \<noteq> [] then [''-P'', pages a] else [])
       @ (if truthy (duplex a) then [''-o'', ''sides='' @ the (duplex a)] else [])
       @ (if fit a then [''-o'', ''fit-to-page''] else [])
       @ (if truthy (media a) then [''-o'', ''media='' @ the (media a)] else [])
       @ [path]"
    by (auto simp: build_cmd_def Let_def truthy_def opt_str_def split: option.splits)
  show "last (build_cmd path a) = path" by (rule build_cmd_last)
qed

text \<open>An instance: a call of \<open>print_pdf\<close> with all five options set.\<close>

theorem invoker_command_witness:
  "commands_run (snd (print_pdf (\<lambda>l. None) (\<lambda>c. Inr 0) ''/watch/a.pdf''
     \<lparr>printer = ''HP'', pages = ''1-2'', copies = 3, duplex = Some ''two-sided-long-edge'',
      fit = True, media = Some ''A4''\<rparr>))
   = [[''lp'', ''-d'', ''HP'', ''-n'', ''3'', ''-P'', ''1-2'', ''-o'',
      ''sides=two-sided-long-edge'', ''-o'', ''fit-to-page'', ''-o'', ''media=A4'',
      ''/watch/a.pdf'']]"
proof -
  have s: "py_str_int 3 = ''3''" by code_simp
  from invoker_command[of "\<lambda>l. None" "\<lambda>c. Inr 0" "''/watch/a.pdf''"
      "\<lparr>printer = ''HP'', pages = ''1-2'', copies = 3, duplex = Some ''two-sided-long-edge'',
        fit = True, media = Some ''A4''\<rparr>"] s
  show ?thesis by (simp add: truthy_def)
qed

subsection \<open>C8\<close>

text \<open>
  Claim C8, without "no-op".  When the scan of a cycle raises and standard output takes
  the warning of line 149, the exception does not leave the pass through the
  \<^verbatim>\<open>while\<close> loop: the cycle ends with the warning and the sleep of 5 seconds and
  keeps the events and the history of the scan up to the raise.  When the listing raises,
  nothing was processed and the history is unchanged.  When an entry of the listing
  raises, the rest of the scan is abandoned: the cycle consists of the listing, the
  events of the entries before it, the events of that entry, the warning and the sleep,
  with the history those earlier entries left, and nothing of the entries after it.  An
  exception of \<^verbatim>\<open>os.path.getmtime\<close> makes its entry raise, with the history unchanged
  by that entry.  A run of \<open>n\<close> cycles on whose standard output every such warning
  can be written never stops early: it lists the folder \<open>n\<close> times and sleeps
  \<open>n\<close> times.
\<close>

theorem scan_error_absorbed:
  "(fst (try_scan ev folder a h) = Inl e \<longrightarrow> can_warn ev e \<longrightarrow>
      watch_cycle ev folder a h =
        (Inr (), fst (snd (try_scan ev folder a h)),
         snd (snd (try_scan ev folder a h)) @ warn (scan_warning e) @ [EvSleep 5]))
   \<and> (listdir ev folder = Inl e_l \<longrightarrow> can_warn ev e_l \<longrightarrow>
        watch_cycle ev folder a h =
          (Inr (), h, [EvListdir folder] @ warn (scan_warning e_l) @ [EvSleep 5]))
   \<and> (listdir ev folder = Inr (pre @ name # post)
        \<longrightarrow> fst (scan_entries ev folder a pre h) = Inr ()
        \<longrightarrow> fst (scan_entry ev folder a name (fst (snd (scan_entries ev folder a pre h))))
              = Inl e_s
        \<longrightarrow> can_warn ev e_s
        \<longrightarrow> watch_cycle ev folder a h =
              (Inr (), fst (snd (scan_entries ev folder a pre h)),
               EvListdir folder # snd (snd (scan_entries ev folder a pre h))
               @ snd (snd (scan_entry ev folder a name
                             (fst (snd (scan_entries ev folder a pre h)))))
               @ warn (scan_warning e_s) @ [EvSleep 5]))
   \<and> (isfile ev (os_path_join folder name)
        \<longrightarrow> fst (is_pdf (files ev) (os_path_join folder name)) = Inr True
        \<longrightarrow> getmtime ev (os_path_join folder name) = Inl e_m
        \<longrightarrow> scan_entry ev folder a name h' =
              (Inl e_m, h',
               EvIsfile (os_path_join folder name)
               # snd (is_pdf (files ev) (os_path_join folder name))
               @ [EvGetmtime (os_path_join folder name)]))
   \<and> ((\<forall>ev\<in>set envs. \<forall>e. can_warn ev e)
        \<longrightarrow> fst (watch_loop envs folder a h) = Inr ()
            \<and> count_list (loop_events envs folder a h) (EvSleep 5) = length envs
            \<and> count_list (loop_events envs folder a h) (EvListdir folder) = length envs)"
proof (intro conjI impI)
  assume "fst (try_scan ev folder a h) = Inl e" "can_warn ev e"
  then show "watch_cycle ev folder a h =
        (Inr (), fst (snd (try_scan ev folder a h)),
         snd (snd (try_scan ev folder a h)) @ warn (scan_warning e) @ [EvSleep 5])"
    by (rule watch_cycle_warned)
next
  assume l: "listdir ev folder = Inl e_l" and c: "can_warn ev e_l"
  note t = try_scan_listdir_raises[OF l, of a h]
  then have "fst (try_scan ev folder a h) = Inl e_l" by simp
  from watch_cycle_warned[OF this c] t
  show "watch_cycle ev folder a h =
          (Inr (), h, [EvListdir folder] @ warn (scan_warning e_l) @ [EvSleep 5])"
    by simp
next
  let ?hp = "fst (snd (scan_entries ev folder a pre h))"
  assume l: "listdir ev folder = Inr (pre @ name # post)"
    and p: "fst (scan_entries ev folder a pre h) = Inr ()"
    and s: "fst (scan_entry ev folder a name ?hp) = Inl e_s"
    and c: "can_warn ev e_s"
  note ab = scan_entries_abandon[OF p s, of post]
  from try_scan_listed[OF l, of a h] ab
  have t: "try_scan ev folder a h =
             (Inl e_s, ?hp,
              EvListdir folder # snd (snd (scan_entries ev folder a pre h))
              @ snd (snd (scan_entry ev folder a name ?hp)))"
    by simp
  then have "fst (try_scan ev folder a h) = Inl e_s" by simp
  from watch_cycle_warned[OF this c] t
  show "watch_cycle ev folder a h =
              (Inr (), ?hp,
               EvListdir folder # snd (snd (scan_entries ev folder a pre h))
               @ snd (snd (scan_entry ev folder a name ?hp))
               @ warn (scan_warning e_s) @ [EvSleep 5])"
    by simp
next
  assume "isfile ev (os_path_join folder name)"
    "fst (is_pdf (files ev) (os_path_join folder name)) = Inr True"
    "getmtime ev (os_path_join folder name) = Inl e_m"
  then show "scan_entry ev folder a name h' =
              (Inl e_m, h',
               EvIsfile (os_path_join folder name)
               # snd (is_pdf (files ev) (os_path_join folder name))
               @ [EvGetmtime (os_path_join folder name)])"
    by (simp add: scan_entry_unfold Let_def)
next
  assume "\<forall>ev\<in>set envs. \<forall>e. can_warn ev e"
  then show "fst (watch_loop envs folder a h) = Inr ()"
    "count_list (loop_events envs folder a h) (EvSleep 5) = length envs"
    "count_list (loop_events envs folder a h) (EvListdir folder) = length envs"
    using loop_runs[of envs folder a h] by simp_all
qed

text \<open>An instance: an unavailable folder, and a file that disappears between the sniff
  and the stat, with a third file listed after it.\<close>

theorem scan_error_absorbed_witness:
  "listdir (scenario (Inl gone) (\<lambda>p. Inr 7) 0) ''/watch'' = Inl gone
   \<and> can_warn (scenario (Inl gone) (\<lambda>p. Inr 7) 0) gone
   \<and> snd (watch_cycle (scenario (Inl gone) (\<lambda>p. Inr 7) 0) ''/watch'' plain_args Map.empty)
       = (Map.empty,
          [EvListdir ''/watch'',
           EvLog ''WARNING: Error scanning folder: No such file or directory'', EvSleep 5])
   \<and> listdir (scenario (Inr [''a.pdf'', ''b.pdf'', ''c.pdf''])
          (\<lambda>p. if p = ''/watch/b.pdf'' then Inl gone else Inr 7) 0) ''/watch''
       = Inr ([''a.pdf''] @ ''b.pdf'' # [''c.pdf''])
   \<and> fst (scan_entries (scenario (Inr [''a.pdf'', ''b.pdf'', ''c.pdf''])
          (\<lambda>p. if p = ''/watch/b.pdf'' then Inl gone else Inr 7) 0)
        ''/watch'' plain_args [''a.pdf''] Map.empty) = Inr ()
   \<and> isfile (scenario (Inr [''a.pdf'', ''b.pdf'', ''c.pdf''])
          (\<lambda>p. if p = ''/watch/b.pdf'' then Inl gone else Inr 7) 0)
        (os_path_join ''/watch'' ''b.pdf'')
   \<and> fst (is_pdf (files (scenario (Inr [''a.pdf'', ''b.pdf'', ''c.pdf''])
          (\<lambda>p. if p = ''/watch/b.pdf'' then Inl gone else Inr 7) 0))
        (os_path_join ''/watch'' ''b.pdf'')) = Inr True
   \<and> getmtime (scenario (Inr [''a.pdf'', ''b.pdf'', ''c.pdf''])
          (\<lambda>p. if p = ''/watch/b.pdf'' then Inl gone else Inr 7) 0)
        (os_path_join ''/watch'' ''b.pdf'') = Inl gone
   \<and> can_warn (scenario (Inr [''a.pdf'', ''b.pdf'', ''c.pdf''])
          (\<lambda>p. if p = ''/watch/b.pdf'' then Inl gone else Inr 7) 0) gone
   \<and> fst (watch_cycle (scenario (Inr [''a.pdf'', ''b.pdf'', ''c.pdf''])
          (\<lambda>p. if p = ''/watch/b.pdf'' then Inl gone else Inr 7) 0)
        ''/watch'' plain_args Map.empty) = Inr ()
   \<and> snd (snd (watch_cycle (scenario (Inr [''a.pdf'', ''b.pdf'', ''c.pdf''])
          (\<lambda>p. if p = ''/watch/b.pdf'' then Inl gone else Inr 7) 0)
        ''/watch'' plain_args Map.empty))
       = [EvListdir ''/watch'',
          EvIsfile ''/watch/a.pdf'', EvOpen ''/watch/a.pdf'', EvRead ''/watch/a.pdf'' 5,
          EvGetmtime ''/watch/a.pdf'', EvLog ''Printing: lp -d HP /watch/a.pdf'',
          EvRun [''lp'', ''-d'', ''HP'', ''/watch/a.pdf''],
          EvIsfile ''/watch/b.pdf'', EvOpen ''/watch/b.pdf'', EvRead ''/watch/b.pdf'' 5,
          EvGetmtime ''/watch/b.pdf'',
          EvLog ''WARNING: Error scanning folder: No such file or directory'', EvSleep 5]
   \<and> (\<forall>e. can_warn (scenario (Inl gone) (\<lambda>p. Inr 7) 0) e)
   \<and> (\<forall>e. can_warn (scenario (Inr [''a.pdf'', ''b.pdf'', ''c.pdf''])
                   (\<lambda>p. if p = ''/watch/b.pdf'' then Inl gone else Inr 7) 0) e)
   \<and> fst (watch_loop [scenario (Inl gone) (\<lambda>p. Inr 7) 0,
                 scenario (Inr [''a.pdf'', ''b.pdf'', ''c.pdf''])
                   (\<lambda>p. if p = ''/watch/b.pdf'' then Inl gone else Inr 7) 0]
            ''/watch'' plain_args Map.empty) = Inr ()
   \<and> count_list (loop_events [scenario (Inl gone) (\<lambda>p. Inr 7) 0,
                 scenario (Inr [''a.pdf'', ''b.pdf'', ''c.pdf''])
                   (\<lambda>p. if p = ''/watch/b.pdf'' then Inl gone else Inr 7) 0]
            ''/watch'' plain_args Map.empty) (EvSleep 5) = 2"
proof -
  let ?ev = "scenario (Inr [''a.pdf'', ''b.pdf'', ''c.pdf''])
          (\<lambda>p. if p = ''/watch/b.pdf'' then Inl gone else Inr 7) 0"
  let ?un = "scenario (Inl gone) (\<lambda>p. Inr 7) 0 :: nat env"
  let ?hp = "fst (snd (scan_entries ?ev ''/watch'' plain_args [''a.pdf''] Map.empty))"
  have l: "listdir ?un ''/watch'' = Inl gone" by (simp add: scenario_def)
  have cu: "can_warn ?un gone" by (simp add: can_warn_def scenario_def)
  have w: "warn (scan_warning gone)
             = [EvLog ''WARNING: Error scanning folder: No such file or directory'']"
    by (simp add: warn_def log_def gone_def scan_warning_def)
  from scan_error_absorbed[where ev="?un" and folder="''/watch''" and e_l=gone
      and a=plain_args and h=Map.empty] l cu w
  have r1: "snd (watch_cycle ?un ''/watch'' plain_args Map.empty)
       = (Map.empty,
          [EvListdir ''/watch'',
           EvLog ''WARNING: Error scanning folder: No such file or directory'', EvSleep 5])"
    by simp
  have l2: "listdir ?ev ''/watch'' = Inr ([''a.pdf''] @ ''b.pdf'' # [''c.pdf''])"
    by (simp add: scenario_def)
  have p: "fst (scan_entries ?ev ''/watch'' plain_args [''a.pdf''] Map.empty) = Inr ()"
    by code_simp
  have ep: "snd (snd (scan_entries ?ev ''/watch'' plain_args [''a.pdf''] Map.empty))
      = [EvIsfile ''/watch/a.pdf'', EvOpen ''/watch/a.pdf'', EvRead ''/watch/a.pdf'' 5,
         EvGetmtime ''/watch/a.pdf'', EvLog ''Printing: lp -d HP /watch/a.pdf'',
         EvRun [''lp'', ''-d'', ''HP'', ''/watch/a.pdf'']]"
    by code_simp
  have f: "isfile ?ev (os_path_join ''/watch'' ''b.pdf'')" by (simp add: scenario_def)
  have q: "fst (is_pdf (files ?ev) (os_path_join ''/watch'' ''b.pdf'')) = Inr True"
    by code_simp
  have qe: "snd (is_pdf (files ?ev) ''/watch/b.pdf'')
              = [EvOpen ''/watch/b.pdf'', EvRead ''/watch/b.pdf'' 5]"
    by code_simp
  have j: "os_path_join ''/watch'' ''b.pdf'' = ''/watch/b.pdf''" by code_simp
  have g: "getmtime ?ev (os_path_join ''/watch'' ''b.pdf'') = Inl gone"
    by (simp add: scenario_def j)
  note th = scan_error_absorbed[where ev="?ev" and folder="''/watch''" and a=plain_args
      and h=Map.empty and pre="[''a.pdf'']" and name="''b.pdf''" and post="[''c.pdf'']"
      and e_s=gone and e_m=gone and h'="?hp"]
  from th f q g
  have se: "scan_entry ?ev ''/watch'' plain_args ''b.pdf'' ?hp
              = (Inl gone, ?hp,
                 EvIsfile (os_path_join ''/watch'' ''b.pdf'')
                 # snd (is_pdf (files ?ev) (os_path_join ''/watch'' ''b.pdf''))
                 @ [EvGetmtime (os_path_join ''/watch'' ''b.pdf'')])"
    by blast
  then have s: "fst (scan_entry ?ev ''/watch'' plain_args ''b.pdf'' ?hp) = Inl gone" by simp
  have ce: "can_warn ?ev gone" by (simp add: can_warn_def scenario_def)
  from th l2 p s ce
  have wc: "watch_cycle ?ev ''/watch'' plain_args Map.empty =
          (Inr (), ?hp,
           EvListdir ''/watch''
           # snd (snd (scan_entries ?ev ''/watch'' plain_args [''a.pdf''] Map.empty))
           @ snd (snd (scan_entry ?ev ''/watch'' plain_args ''b.pdf'' ?hp))
           @ warn (scan_warning gone) @ [EvSleep 5])"
    by blast
  then have r2: "fst (watch_cycle ?ev ''/watch'' plain_args Map.empty) = Inr ()" by simp
  from wc have "snd (snd (watch_cycle ?ev ''/watch'' plain_args Map.empty)) =
           EvListdir ''/watch''
           # snd (snd (scan_entries ?ev ''/watch'' plain_args [''a.pdf''] Map.empty))
           @ snd (snd (scan_entry ?ev ''/watch'' plain_args ''b.pdf'' ?hp))
           @ warn (scan_warning gone) @ [EvSleep 5]"
    by simp
  also have "\<dots> = [EvListdir ''/watch'',
          EvIsfile ''/watch/a.pdf'', EvOpen ''/watch/a.pdf'', EvRead ''/watch/a.pdf'' 5,
          EvGetmtime ''/watch/a.pdf'', EvLog ''Printing: lp -d HP /watch/a.pdf'',
          EvRun [''lp'', ''-d'', ''HP'', ''/watch/a.pdf''],
          EvIsfile ''/watch/b.pdf'', EvOpen ''/watch/b.pdf'', EvRead ''/watch/b.pdf'' 5,
          EvGetmtime ''/watch/b.pdf'',
          EvLog ''WARNING: Error scanning folder: No such file or directory'', EvSleep 5]"
    unfolding ep se w by (simp add: qe j)
  finally have r3: "snd (snd (watch_cycle ?ev ''/watch'' plain_args Map.empty))
       = [EvListdir ''/watch'',
          EvIsfile ''/watch/a.pdf'', EvOpen ''/watch/a.pdf'', EvRead ''/watch/a.pdf'' 5,
          EvGetmtime ''/watch/a.pdf'', EvLog ''Printing: lp -d HP /watch/a.pdf'',
          EvRun [''lp'', ''-d'', ''HP'', ''/watch/a.pdf''],
          EvIsfile ''/watch/b.pdf'', EvOpen ''/watch/b.pdf'', EvRead ''/watch/b.pdf'' 5,
          EvGetmtime ''/watch/b.pdf'',
          EvLog ''WARNING: Error scanning folder: No such file or directory'', EvSleep 5]" .
  have a1: "\<forall>e. can_warn ?un e" by (simp add: can_warn_def scenario_def)
  have a2: "\<forall>e. can_warn ?ev e" by (simp add: can_warn_def scenario_def)
  from a1 a2 have all: "\<forall>ev\<in>set [?un, ?ev]. \<forall>e. can_warn ev e" by simp
  from scan_error_absorbed[where envs="[?un, ?ev]" and folder="''/watch''" and a=plain_args
      and h=Map.empty] all
  have r4: "fst (watch_loop [?un, ?ev] ''/watch'' plain_args Map.empty) = Inr ()"
    and r5: "count_list (loop_events [?un, ?ev] ''/watch'' plain_args Map.empty) (EvSleep 5) = 2"
    by simp_all
  from l cu r1 l2 p f q g ce r2 r3 a1 a2 r4 r5 show ?thesis by (intro conjI)
qed

text \<open>
  A cycle whose scan raises is not always without effect: \<^verbatim>\<open>a.pdf\<close> is submitted
  and recorded before reading the modification time of \<^verbatim>\<open>b.pdf\<close> raises.
\<close>

theorem scan_error_no_op_counterexample:
  "fst (try_scan (scenario (Inr [''a.pdf'', ''b.pdf''])
          (\<lambda>p. if p = ''/watch/b.pdf'' then Inl gone else Inr 7) 0)
        ''/watch'' plain_args Map.empty) = Inl gone
   \<and> getmtime (scenario (Inr [''a.pdf'', ''b.pdf''])
          (\<lambda>p. if p = ''/watch/b.pdf'' then Inl gone else Inr 7) 0) ''/watch/b.pdf'' = Inl gone
   \<and> submitted ''/watch/a.pdf'' plain_args
        (cycle_events (scenario (Inr [''a.pdf'', ''b.pdf''])
           (\<lambda>p. if p = ''/watch/b.pdf'' then Inl gone else Inr 7) 0)
           ''/watch'' plain_args Map.empty)
   \<and> (Map.empty :: string \<rightharpoonup> nat) ''/watch/a.pdf'' = None
   \<and> cycle_history (scenario (Inr [''a.pdf'', ''b.pdf''])
           (\<lambda>p. if p = ''/watch/b.pdf'' then Inl gone else Inr 7) 0)
        ''/watch'' plain_args Map.empty ''/watch/a.pdf'' = Some 7"
  by code_simp

subsection \<open>C9\<close>

text \<open>
  Claim C9, with fit left out of the validation.  When \<open>get_print_options\<close> returns,
  the copy count is positive and the duplex mode is absent or one of the three modes; the
  answers it read are the page answer, then any number of copy answers that were each
  rejected with a warning and a new prompt followed by one that was accepted (blank for
  1, or decimal digits with a positive value), then the same for duplex (blank for no
  mode, or a number from 1 to 3), then exactly one answer for fit and one for the paper
  size.  The fit answer is never rejected: fit is true exactly when the answer, stripped
  and in lower case, is \<^verbatim>\<open>y\<close>.  There are as many warnings as rejected answers.
\<close>

theorem get_print_options_validated:
  assumes "fst (get_print_options stdin) = Inr (pg, n, d, f, md)"
  shows "0 < n \<and> (d = None \<or> d \<in> Some ` set duplex_modes)
     \<and> (\<exists>p bad_c c bad_d dl fl ml.
           stdin = p # bad_c @ c # bad_d @ dl # fl # ml # fst (snd (get_print_options stdin))
         \<and> pg = py_strip p
         \<and> (\<forall>b\<in>set bad_c. copies_rejects b) \<and> copies_accepts c n
         \<and> (\<forall>b\<in>set bad_d. duplex_rejects b) \<and> duplex_accepts dl d
         \<and> f = (py_lower (py_strip fl) = ''y'')
         \<and> md = (if py_strip ml = [] then None else Some (py_strip ml))
         \<and> warnings (snd (snd (get_print_options stdin))) = length bad_c + length bad_d)"
proof -
  from assms obtain l1 s1 n' s2 d' l4 l5 s5 ev2 ev3 where
    st: "stdin = l1 # s1" and c: "ask_copies s1 = (Inr n', s2, ev2)"
    and dd: "ask_duplex s2 = (Inr d', l4 # l5 # s5, ev3)"
    and g: "get_print_options stdin =
      (Inr (py_strip l1, n', d', py_lower (py_strip l4) = ''y'',
            if py_strip l5 = [] then None else Some (py_strip l5)),
       s5, [EvPrompt pages_prompt] @ ev2 @ duplex_menu @ ev3
           @ [EvPrompt fit_prompt] @ [EvPrompt media_prompt])"
    by (rule get_print_options_unfold)
  from assms g have res: "pg = py_strip l1" "n' = n" "d' = d"
    "f = (py_lower (py_strip l4) = ''y'')"
    "md = (if py_strip l5 = [] then None else Some (py_strip l5))"
    by simp_all
  have rest: "fst (snd (get_print_options stdin)) = s5" by (simp add: g)
  have evs: "warnings (snd (snd (get_print_options stdin))) = warnings ev2 + warnings ev3"
    by (simp add: g warnings_append warnings_prompt warnings_menu warnings_Nil)
  have fc: "fst (ask_copies s1) = Inr n" by (simp add: c res(2))
  from ask_copies_result[OF fc] obtain bad_c cl where
    c1: "s1 = bad_c @ cl # fst (snd (ask_copies s1))"
    and c2: "\<forall>b\<in>set bad_c. copies_rejects b"
    and c3: "copies_accepts cl n"
    and c4: "warnings (snd (snd (ask_copies s1))) = length bad_c" by blast
  have fd: "fst (ask_duplex s2) = Inr d" by (simp add: dd res(3))
  from ask_duplex_result[OF fd] obtain bad_d dl where
    d1: "s2 = bad_d @ dl # fst (snd (ask_duplex s2))"
    and d2: "\<forall>b\<in>set bad_d. duplex_rejects b"
    and d3: "duplex_accepts dl d"
    and d4: "warnings (snd (snd (ask_duplex s2))) = length bad_d" by blast
  have c1': "s1 = bad_c @ cl # s2" using c1 by (simp add: c)
  have d1': "s2 = bad_d @ dl # l4 # l5 # s5" using d1 by (simp add: dd)
  have shape: "stdin = l1 # bad_c @ cl # bad_d @ dl # l4 # l5
                 # fst (snd (get_print_options stdin))"
    unfolding rest using st c1' d1' by simp
  have w: "warnings (snd (snd (get_print_options stdin))) = length bad_c + length bad_d"
    unfolding evs using c4 d4 by (simp add: c dd)
  have pos: "0 < n" using c3 by (rule copies_accepts_pos)
  have mode: "d = None \<or> d \<in> Some ` set duplex_modes" using d3 by (rule duplex_accepts_mode)
  have "\<exists>p bad_c c bad_d dl fl ml.
           stdin = p # bad_c @ c # bad_d @ dl # fl # ml # fst (snd (get_print_options stdin))
         \<and> pg = py_strip p
         \<and> (\<forall>b\<in>set bad_c. copies_rejects b) \<and> copies_accepts c n
         \<and> (\<forall>b\<in>set bad_d. duplex_rejects b) \<and> duplex_accepts dl d
         \<and> f = (py_lower (py_strip fl) = ''y'')
         \<and> md = (if py_strip ml = [] then None else Some (py_strip ml))
         \<and> warnings (snd (snd (get_print_options stdin))) = length bad_c + length bad_d"
    apply (rule exI[of _ l1])
    apply (rule exI[of _ bad_c])
    apply (rule exI[of _ cl])
    apply (rule exI[of _ bad_d])
    apply (rule exI[of _ dl])
    apply (rule exI[of _ l4])
    apply (rule exI[of _ l5])
    apply (intro conjI)
            apply (rule shape)
           apply (rule res(1))
          apply (rule c2)
         apply (rule c3)
        apply (rule d2)
       apply (rule d3)
      apply (rule res(4))
     apply (rule res(5))
    apply (rule w)
    done
  with pos mode show ?thesis by (intro conjI)
qed

text \<open>An instance: one rejected answer for the copies and one for the duplex mode.\<close>

theorem get_print_options_validated_witness:
  "fst (get_print_options [''1-2'', ''x'', ''3'', ''9'', ''2'', ''Y'', ''A4'', ''next''])
     = Inr (''1-2'', 3, Some ''two-sided-long-edge'', True, Some ''A4'')
   \<and> fst (snd (get_print_options [''1-2'', ''x'', ''3'', ''9'', ''2'', ''Y'', ''A4'', ''next'']))
     = [''next'']
   \<and> Some ''two-sided-long-edge'' \<in> Some ` set duplex_modes"
proof -
  let ?in = "[''1-2'', ''x'', ''3'', ''9'', ''2'', ''Y'', ''A4'', ''next'']"
  have r: "fst (get_print_options ?in)
     = Inr (''1-2'', 3, Some ''two-sided-long-edge'', True, Some ''A4'')" by code_simp
  have s: "fst (snd (get_print_options ?in)) = [''next'']" by code_simp
  from get_print_options_validated[OF r]
  have "Some ''two-sided-long-edge'' \<in> Some ` set duplex_modes" by blast
  with r s show ?thesis by blast
qed

text \<open>
  The fit answer \<^verbatim>\<open>maybe\<close> is neither yes nor no, and is not blank; it is taken for
  false without a warning and without a second prompt.
\<close>

theorem fit_not_validated_counterexample:
  "py_lower (py_strip ''maybe'') \<noteq> ''y'' \<and> py_lower (py_strip ''maybe'') \<noteq> ''n''
   \<and> py_strip ''maybe'' \<noteq> []
   \<and> fst (get_print_options [[], [], [], ''maybe'', []]) = Inr ([], 1, None, False, None)
   \<and> fst (snd (get_print_options [[], [], [], ''maybe'', []])) = []
   \<and> warnings (snd (snd (get_print_options [[], [], [], ''maybe'', []]))) = 0"
  by code_simp

subsection \<open>C10\<close>

text \<open>
  Claim C10.  The times in the print history never decrease: after any number of cycles
  every path that had an entry still has one, with a time at least as large.  One pass of
  the loop body leaves the history as it was or stores, for its own path, a time that is
  new or strictly greater than the stored one.
\<close>

theorem history_monotone:
  "(\<forall>q t. h q = Some t \<longrightarrow> (\<exists>t'. loop_history envs folder a h q = Some t' \<and> t \<le> t'))
   \<and> (fst (snd (scan_entry ev folder a name h)) = h
      \<or> (\<exists>m. fst (snd (scan_entry ev folder a name h)) = h(os_path_join folder name \<mapsto> m)
           \<and> (h (os_path_join folder name) = None
              \<or> (\<exists>t. h (os_path_join folder name) = Some t \<and> t < m))))"
proof
  show "\<forall>q t. h q = Some t \<longrightarrow> (\<exists>t'. loop_history envs folder a h q = Some t' \<and> t \<le> t')"
    using loop_mono[of h _ _ envs folder a] by blast
  show "fst (snd (scan_entry ev folder a name h)) = h
      \<or> (\<exists>m. fst (snd (scan_entry ev folder a name h)) = h(os_path_join folder name \<mapsto> m)
           \<and> (h (os_path_join folder name) = None
              \<or> (\<exists>t. h (os_path_join folder name) = Some t \<and> t < m)))"
    using scan_entry_update[of ev folder a name h] by (simp add: should_print_iff)
qed

text \<open>An instance: the entry of \<^verbatim>\<open>a.pdf\<close> grows from 3 to 7.\<close>

theorem history_monotone_witness:
  "[''/watch/a.pdf'' \<mapsto> 3::nat] ''/watch/a.pdf'' = Some 3
   \<and> (\<exists>t'. loop_history [scenario (Inr [''a.pdf'', ''b.txt'']) (\<lambda>p. Inr 7) 0] ''/watch''
              plain_args [''/watch/a.pdf'' \<mapsto> 3] ''/watch/a.pdf'' = Some t' \<and> 3 \<le> t')
   \<and> loop_history [scenario (Inr [''a.pdf'', ''b.txt'']) (\<lambda>p. Inr 7) 0] ''/watch''
        plain_args [''/watch/a.pdf'' \<mapsto> 3] ''/watch/a.pdf'' = Some 7"
proof -
  let ?ev = "scenario (Inr [''a.pdf'', ''b.txt'']) (\<lambda>p. Inr 7) 0"
  let ?h = "[''/watch/a.pdf'' \<mapsto> 3::nat]"
  have h: "?h ''/watch/a.pdf'' = Some 3" by simp
  have v: "loop_history [?ev] ''/watch'' plain_args ?h ''/watch/a.pdf'' = Some 7"
    by code_simp
  from history_monotone[of ?h "[?ev]" "''/watch''" plain_args] h
  have "\<exists>t'. loop_history [?ev] ''/watch'' plain_args ?h ''/watch/a.pdf'' = Some t' \<and> 3 \<le> t'"
    by blast
  with h v show ?thesis by blast
qed

end
